theory Spec2Isabelle
  imports Main "HOL-Library.Word"
begin

section \<open>JavaScript numbers\<close>

text \<open>
  A Number is an IEEE 754 binary64 value; it is represented by its 64-bit pattern
  (sign, 11 exponent bits, 52 fraction bits), so that the conversions of the typed
  setters and getters of \<open>DataView\<close> can be written out exactly.
\<close>

type_synonym number = "64 word"

definition sign_bit :: "number \<Rightarrow> bool" where
  "sign_bit w = (unat w div 2 ^ 63 = 1)"

definition expo :: "number \<Rightarrow> nat" where
  "expo w = unat w div 2 ^ 52 mod 2 ^ 11"

definition mant :: "number \<Rightarrow> nat" where
  "mant w = unat w mod 2 ^ 52"

definition make_number :: "bool \<Rightarrow> nat \<Rightarrow> nat \<Rightarrow> number" where
  "make_number s e m = word_of_nat ((if s then 2 ^ 63 else 0) + e * 2 ^ 52 + m)"

definition is_NaN :: "number \<Rightarrow> bool" where
  "is_NaN w = (expo w = 2047 \<and> mant w \<noteq> 0)"

definition NaN :: number where
  "NaN = make_number False 2047 (2 ^ 51)"

text \<open>The number of binary digits of a natural number.\<close>

fun bitlen :: "nat \<Rightarrow> nat" where
  "bitlen n = (if n = 0 then 0 else Suc (bitlen (n div 2)))"

declare bitlen.simps [simp del]

text \<open>
  The Number of an integer. It is exact for integers of magnitude below \<open>2 ^ 53\<close>;
  the getters only convert 8-, 16- and 32-bit integers.
\<close>

definition Number_of_int :: "int \<Rightarrow> number" where
  "Number_of_int i =
     (if i = 0 then 0
      else let n = nat \<bar>i\<bar>; k = bitlen n - 1
           in make_number (i < 0) (1023 + k) ((n - 2 ^ k) * 2 ^ (52 - k)))"

text \<open>
  The integer part of a Number, as the modular conversions \<open>ToUint8\<close>, \<open>ToInt16\<close>,
  \<open>ToUint32\<close>, ... take it: \<open>NaN\<close> and the infinities give 0, any other value is
  truncated towards zero.
\<close>

definition ToIntegral :: "number \<Rightarrow> int" where
  "ToIntegral w =
     (if expo w = 2047 \<or> expo w = 0 then 0
      else let sig = 2 ^ 52 + mant w;
               mag = (if 1075 \<le> expo w then sig * 2 ^ (expo w - 1075)
                      else sig div 2 ^ (1075 - expo w))
           in if sign_bit w then - int mag else int mag)"

text \<open>\<open>ToUint8\<close>, \<open>ToUint16\<close>, \<open>ToUint32\<close> (and the bit patterns of \<open>ToInt8\<close>, ...).\<close>

definition ToUint :: "nat \<Rightarrow> number \<Rightarrow> nat" where
  "ToUint bits w = nat (ToIntegral w mod 2 ^ bits)"

text \<open>The two's complement reading of an unsigned value of the given width.\<close>

definition twos_complement :: "nat \<Rightarrow> nat \<Rightarrow> int" where
  "twos_complement bits x = (if 2 ^ (bits - 1) \<le> x then int x - 2 ^ bits else int x)"

text \<open>\<open>ToInt32\<close>, which the operators \<open>>>\<close> and \<open>&\<close> apply to their operands.\<close>

definition ToInt32 :: "number \<Rightarrow> int" where
  "ToInt32 w = twos_complement 32 (ToUint 32 w)"

section \<open>JavaScript values\<close>

text \<open>
  The arguments a caller can hand to a writer. The file applies three built-in
  conversions of the language to a string: \<open>Number\<close> (inside \<open>isNaN\<close>),
  \<open>parseInt\<close> and \<open>parseFloat\<close>. A string value carries what they return for it.
\<close>

datatype jsval =
    JUndefined
  | JNull
  | JBool bool
  | JNumber number
  | JString (chars: string) (as_Number: number) (as_parseInt: number) (as_parseFloat: number)

fun ToNumber :: "jsval \<Rightarrow> number" where
  "ToNumber JUndefined = NaN"
| "ToNumber JNull = 0"
| "ToNumber (JBool b) = (if b then Number_of_int 1 else 0)"
| "ToNumber (JNumber n) = n"
| "ToNumber (JString s n i f) = n"

definition isNaN :: "jsval \<Rightarrow> bool" where
  "isNaN val = is_NaN (ToNumber val)"

datatype error =
    NotANumber jsval   \<comment> \<open>\<open>Error("Not a number: " + val)\<close>\<close>
  | RequestMore        \<comment> \<open>\<open>Error("Request more than currently allocated buffer")\<close>\<close>
  | RangeError         \<comment> \<open>raised by \<open>DataView\<close> and typed arrays on an access out of bounds\<close>
  | TypeError          \<comment> \<open>raised by a call of a method the class does not define\<close>
  | FractionalOffset   \<comment> \<open>not an exception: see \<open>writeHex\<close>\<close>

definition toInt :: "jsval \<Rightarrow> error + jsval" where
  "toInt val =
     (if isNaN val then Inl (NotANumber val)
      else case val of
             JString s n i f \<Rightarrow> Inr (JNumber i)
           | _ \<Rightarrow> Inr val)"

definition toFloat :: "jsval \<Rightarrow> error + jsval" where
  "toFloat val =
     (if isNaN val then Inl (NotANumber val)
      else case val of
             JString s n i f \<Rightarrow> Inr (JNumber f)
           | _ \<Rightarrow> Inr val)"

section \<open>Bytes, \<open>ArrayBuffer\<close> and \<open>DataView\<close>\<close>

type_synonym byte = "8 word"

text \<open>The bytes of a natural number, least significant first, and back.\<close>

fun le_bytes :: "nat \<Rightarrow> nat \<Rightarrow> byte list" where
  "le_bytes 0 x = []"
| "le_bytes (Suc n) x = word_of_nat (x mod 256) # le_bytes n (x div 256)"

fun le_nat :: "byte list \<Rightarrow> nat" where
  "le_nat [] = 0"
| "le_nat (b # bs) = unat b + 256 * le_nat bs"

text \<open>Memory order: little-endian keeps the least significant byte first.\<close>

definition ordered :: "bool \<Rightarrow> byte list \<Rightarrow> byte list" where
  "ordered littleEndian bs = (if littleEndian then bs else rev bs)"

text \<open>
  Writing and reading a run of bytes of a buffer. Out of bounds, \<open>DataView\<close> and the
  typed arrays raise a \<open>RangeError\<close>: the result is \<open>None\<close>.
\<close>

definition poke :: "nat \<Rightarrow> byte list \<Rightarrow> byte list \<Rightarrow> byte list option" where
  "poke off bs buf =
     (if off + length bs \<le> length buf
      then Some (take off buf @ bs @ drop (off + length bs) buf)
      else None)"

definition peek :: "nat \<Rightarrow> nat \<Rightarrow> byte list \<Rightarrow> byte list option" where
  "peek off n buf =
     (if off + n \<le> length buf then Some (take n (drop off buf)) else None)"

text \<open>\<open>ArrayBuffer.prototype.slice\<close> for bounds that are not negative: a new buffer.\<close>

definition slice :: "nat \<Rightarrow> nat \<Rightarrow> byte list \<Rightarrow> byte list" where
  "slice start end buf =
     (let first = min start (length buf); final = min end (length buf)
      in take (final - first) (drop first buf))"

text \<open>
  Rounding to binary32 (\<open>roundTiesToEven\<close>), as \<open>setFloat32\<close> does, and the exact
  conversion back, as \<open>getFloat32\<close> does. A binary32 value is its 32-bit pattern.
\<close>

definition round_shift :: "nat \<Rightarrow> nat \<Rightarrow> nat" where
  "round_shift n k =
     (let q = n div 2 ^ k; r = 2 * (n mod 2 ^ k)
      in if 2 ^ k < r \<or> (r = 2 ^ k \<and> odd q) then q + 1 else q)"

definition binary32_of :: "number \<Rightarrow> nat" where
  "binary32_of w =
     (let s = (if sign_bit w then 2 ^ 31 else 0)
      in if expo w = 2047 then s + 255 * 2 ^ 23 + (if mant w = 0 then 0 else 2 ^ 22)
         else let sig = (if expo w = 0 then mant w else 2 ^ 52 + mant w);
                  e = max 1 (expo w);
                  bits = (if 897 \<le> e then (e - 897) * 2 ^ 23 + round_shift sig 29
                          else round_shift sig (29 + (897 - e)))
              in s + min bits (255 * 2 ^ 23))"

definition Number_of_binary32 :: "nat \<Rightarrow> number" where
  "Number_of_binary32 x =
     (let s = (x div 2 ^ 31 = 1); e = x div 2 ^ 23 mod 2 ^ 8; m = x mod 2 ^ 23
      in if e = 255 then make_number s 2047 (m * 2 ^ 29)
         else if e = 0 then
           (if m = 0 then make_number s 0 0
            else let k = bitlen m - 1
                 in make_number s (874 + k) ((m - 2 ^ k) * 2 ^ (52 - k)))
         else make_number s (896 + e) (m * 2 ^ 29))"

text \<open>
  The setters of \<open>DataView\<close> convert the value with \<open>ToNumber\<close>, then to the element
  type; the getters return a Number.
\<close>

definition setUint8 :: "nat \<Rightarrow> jsval \<Rightarrow> byte list \<Rightarrow> byte list option" where
  "setUint8 byteOffset v buf = poke byteOffset (le_bytes 1 (ToUint 8 (ToNumber v))) buf"

definition setInt8 :: "nat \<Rightarrow> jsval \<Rightarrow> byte list \<Rightarrow> byte list option" where
  "setInt8 byteOffset v buf = poke byteOffset (le_bytes 1 (ToUint 8 (ToNumber v))) buf"

definition setUint16 :: "nat \<Rightarrow> jsval \<Rightarrow> bool \<Rightarrow> byte list \<Rightarrow> byte list option" where
  "setUint16 byteOffset v littleEndian buf =
     poke byteOffset (ordered littleEndian (le_bytes 2 (ToUint 16 (ToNumber v)))) buf"

definition setInt16 :: "nat \<Rightarrow> jsval \<Rightarrow> bool \<Rightarrow> byte list \<Rightarrow> byte list option" where
  "setInt16 byteOffset v littleEndian buf =
     poke byteOffset (ordered littleEndian (le_bytes 2 (ToUint 16 (ToNumber v)))) buf"

definition setUint32 :: "nat \<Rightarrow> jsval \<Rightarrow> bool \<Rightarrow> byte list \<Rightarrow> byte list option" where
  "setUint32 byteOffset v littleEndian buf =
     poke byteOffset (ordered littleEndian (le_bytes 4 (ToUint 32 (ToNumber v)))) buf"

definition setInt32 :: "nat \<Rightarrow> jsval \<Rightarrow> bool \<Rightarrow> byte list \<Rightarrow> byte list option" where
  "setInt32 byteOffset v littleEndian buf =
     poke byteOffset (ordered littleEndian (le_bytes 4 (ToUint 32 (ToNumber v)))) buf"

definition setFloat32 :: "nat \<Rightarrow> jsval \<Rightarrow> bool \<Rightarrow> byte list \<Rightarrow> byte list option" where
  "setFloat32 byteOffset v littleEndian buf =
     poke byteOffset (ordered littleEndian (le_bytes 4 (binary32_of (ToNumber v)))) buf"

definition setFloat64 :: "nat \<Rightarrow> jsval \<Rightarrow> bool \<Rightarrow> byte list \<Rightarrow> byte list option" where
  "setFloat64 byteOffset v littleEndian buf =
     poke byteOffset (ordered littleEndian (le_bytes 8 (unat (ToNumber v)))) buf"

definition getUint8 :: "nat \<Rightarrow> byte list \<Rightarrow> number option" where
  "getUint8 byteOffset buf =
     map_option (\<lambda>bs. Number_of_int (int (le_nat bs))) (peek byteOffset 1 buf)"

definition getUint16 :: "nat \<Rightarrow> bool \<Rightarrow> byte list \<Rightarrow> number option" where
  "getUint16 byteOffset littleEndian buf =
     map_option (\<lambda>bs. Number_of_int (int (le_nat (ordered littleEndian bs))))
       (peek byteOffset 2 buf)"

definition getInt16 :: "nat \<Rightarrow> bool \<Rightarrow> byte list \<Rightarrow> number option" where
  "getInt16 byteOffset littleEndian buf =
     map_option (\<lambda>bs. Number_of_int (twos_complement 16 (le_nat (ordered littleEndian bs))))
       (peek byteOffset 2 buf)"

definition getUint32 :: "nat \<Rightarrow> bool \<Rightarrow> byte list \<Rightarrow> number option" where
  "getUint32 byteOffset littleEndian buf =
     map_option (\<lambda>bs. Number_of_int (int (le_nat (ordered littleEndian bs))))
       (peek byteOffset 4 buf)"

definition getInt32 :: "nat \<Rightarrow> bool \<Rightarrow> byte list \<Rightarrow> number option" where
  "getInt32 byteOffset littleEndian buf =
     map_option (\<lambda>bs. Number_of_int (twos_complement 32 (le_nat (ordered littleEndian bs))))
       (peek byteOffset 4 buf)"

definition getFloat32 :: "nat \<Rightarrow> bool \<Rightarrow> byte list \<Rightarrow> number option" where
  "getFloat32 byteOffset littleEndian buf =
     map_option (\<lambda>bs. Number_of_binary32 (le_nat (ordered littleEndian bs)))
       (peek byteOffset 4 buf)"

definition getFloat64 :: "nat \<Rightarrow> bool \<Rightarrow> byte list \<Rightarrow> number option" where
  "getFloat64 byteOffset littleEndian buf =
     map_option (\<lambda>bs. word_of_nat (le_nat (ordered littleEndian bs)))
       (peek byteOffset 8 buf)"

section \<open>The store of buffers\<close>

text \<open>
  An \<open>ArrayBuffer\<close> is an object: two cursors, or a cursor and a typed array, can
  hold the same one. Buffers live in a store, and a cursor holds a reference.
  \<open>fresh\<close> is the next reference to hand out: the references below it are allocated.
\<close>

type_synonym ref = nat

record heap =
  cells :: "ref \<Rightarrow> byte list"
  fresh :: ref

definition new_ArrayBuffer :: "byte list \<Rightarrow> heap \<Rightarrow> ref \<times> heap" where
  "new_ArrayBuffer bs h =
     (fresh h, h\<lparr>cells := (cells h)(fresh h := bs), fresh := Suc (fresh h)\<rparr>)"

definition byteLength :: "heap \<Rightarrow> ref \<Rightarrow> nat" where
  "byteLength h r = length (cells h r)"

text \<open>Storing bytes into an existing buffer, as a setter or \<open>set\<close> does.\<close>

definition put :: "ref \<Rightarrow> byte list \<Rightarrow> heap \<Rightarrow> heap" where
  "put r bs h = h\<lparr>cells := (cells h)(r := bs)\<rparr>"

section \<open>\<open>BufferStream\<close>\<close>

text \<open>
  The field \<open>view\<close> of the class is always \<open>new DataView(this.buffer)\<close>: every
  assignment to \<open>buffer\<close> is followed by that assignment to \<open>view\<close>. The record
  keeps \<open>buffer\<close> only. Offsets, sizes and lengths are natural numbers.
\<close>

record BufferStream =
  buffer :: ref
  offset :: nat
  isLittleEndian :: bool
  size_bs :: nat

text \<open>
  A method that raises leaves the object and the store as they are at the
  \<open>throw\<close>: the outcome of a call is its result, or its error, with both.
\<close>

type_synonym 'a outcome = "(error + 'a) \<times> BufferStream \<times> heap"

text \<open>The first argument of the constructors: a number, a buffer, or \<open>null\<close> / nothing.\<close>

datatype sizeOrBuffer = ArgNumber nat | ArgBuffer ref | ArgAbsent

definition BufferStream_new :: "sizeOrBuffer \<Rightarrow> bool option \<Rightarrow> heap \<Rightarrow> BufferStream \<times> heap" where
  "BufferStream_new arg littleEndian h =
     (let (b, h1) = (case arg of
                       ArgNumber n \<Rightarrow> new_ArrayBuffer (replicate n 0) h
                     | ArgBuffer r \<Rightarrow> (r, h)
                     | ArgAbsent \<Rightarrow> new_ArrayBuffer [] h)
      in (\<lparr>buffer = b, offset = 0,
           isLittleEndian = (case littleEndian of Some le \<Rightarrow> le | None \<Rightarrow> False),
           size_bs = 0\<rparr>, h1))"

definition ReadBufferStream_new :: "sizeOrBuffer \<Rightarrow> bool option \<Rightarrow> heap \<Rightarrow> BufferStream \<times> heap" where
  "ReadBufferStream_new arg littleEndian h =
     (let (s, h1) = BufferStream_new arg littleEndian h
      in (s\<lparr>size_bs := byteLength h1 (buffer s)\<rparr>, h1))"

definition WriteBufferStream_new :: "sizeOrBuffer \<Rightarrow> bool option \<Rightarrow> heap \<Rightarrow> BufferStream \<times> heap" where
  "WriteBufferStream_new arg littleEndian h =
     (let (s, h1) = BufferStream_new arg littleEndian h
      in (s\<lparr>size_bs := 0\<rparr>, h1))"

definition setEndian :: "bool \<Rightarrow> BufferStream \<Rightarrow> BufferStream" where
  "setEndian isLittle s = s\<lparr>isLittleEndian := isLittle\<rparr>"

definition increment :: "nat \<Rightarrow> BufferStream \<Rightarrow> nat \<times> BufferStream" where
  "increment step s =
     (let s1 = s\<lparr>offset := offset s + step\<rparr>
      in (step, if size_bs s1 < offset s1 then s1\<lparr>size_bs := offset s1\<rparr> else s1))"

text \<open>
  \<open>checkSize\<close>: the new buffer is zero-filled, and \<open>set\<close> copies the old bytes to its
  front.
\<close>

definition checkSize :: "nat \<Rightarrow> BufferStream \<Rightarrow> heap \<Rightarrow> unit outcome" where
  "checkSize step s h =
     (if byteLength h (buffer s) < offset s + step then
        let dstSize = offset s + step;
            (dst, h1) = new_ArrayBuffer (replicate dstSize 0) h
        in case poke 0 (cells h1 (buffer s)) (cells h1 dst) of
             None \<Rightarrow> (Inl RangeError, s, h1)
           | Some bs \<Rightarrow> (Inr (), s\<lparr>buffer := dst\<rparr>, put dst bs h1)
      else (Inr (), s, h))"

subsection \<open>Writers\<close>

definition writeUint8 :: "jsval \<Rightarrow> BufferStream \<Rightarrow> heap \<Rightarrow> nat outcome" where
  "writeUint8 val s h =
     (case checkSize 1 s h of
        (Inl e, s1, h1) \<Rightarrow> (Inl e, s1, h1)
      | (Inr u, s1, h1) \<Rightarrow>
          (case toInt val of
             Inl e \<Rightarrow> (Inl e, s1, h1)
           | Inr v \<Rightarrow>
               (case setUint8 (offset s1) v (cells h1 (buffer s1)) of
                  None \<Rightarrow> (Inl RangeError, s1, h1)
                | Some bs \<Rightarrow>
                    (let (n, s2) = increment 1 s1 in (Inr n, s2, put (buffer s1) bs h1)))))"

definition writeInt8 :: "jsval \<Rightarrow> BufferStream \<Rightarrow> heap \<Rightarrow> nat outcome" where
  "writeInt8 val s h =
     (case checkSize 1 s h of
        (Inl e, s1, h1) \<Rightarrow> (Inl e, s1, h1)
      | (Inr u, s1, h1) \<Rightarrow>
          (case toInt val of
             Inl e \<Rightarrow> (Inl e, s1, h1)
           | Inr v \<Rightarrow>
               (case setInt8 (offset s1) v (cells h1 (buffer s1)) of
                  None \<Rightarrow> (Inl RangeError, s1, h1)
                | Some bs \<Rightarrow>
                    (let (n, s2) = increment 1 s1 in (Inr n, s2, put (buffer s1) bs h1)))))"

definition writeUint16 :: "jsval \<Rightarrow> BufferStream \<Rightarrow> heap \<Rightarrow> nat outcome" where
  "writeUint16 val s h =
     (case checkSize 2 s h of
        (Inl e, s1, h1) \<Rightarrow> (Inl e, s1, h1)
      | (Inr u, s1, h1) \<Rightarrow>
          (case toInt val of
             Inl e \<Rightarrow> (Inl e, s1, h1)
           | Inr v \<Rightarrow>
               (case setUint16 (offset s1) v (isLittleEndian s1) (cells h1 (buffer s1)) of
                  None \<Rightarrow> (Inl RangeError, s1, h1)
                | Some bs \<Rightarrow>
                    (let (n, s2) = increment 2 s1 in (Inr n, s2, put (buffer s1) bs h1)))))"

text \<open>
  \<open>writeTwoUint16s\<close>: \<open>value >> 16\<close> and \<open>value & 0xffff\<close> convert the value with
  \<open>ToNumber\<close> and \<open>ToInt32\<close>; the shift keeps the sign. Both results are numbers, and it
  is to them that \<open>toInt\<close> is applied.
\<close>

definition writeTwoUint16s :: "jsval \<Rightarrow> BufferStream \<Rightarrow> heap \<Rightarrow> nat outcome" where
  "writeTwoUint16s val s h =
     (case checkSize 4 s h of
        (Inl e, s1, h1) \<Rightarrow> (Inl e, s1, h1)
      | (Inr u, s1, h1) \<Rightarrow>
          (let first = JNumber (Number_of_int (ToInt32 (ToNumber val) div 2 ^ 16));
               second = JNumber (Number_of_int (ToInt32 (ToNumber val) mod 2 ^ 16))
           in case toInt first of
                Inl e \<Rightarrow> (Inl e, s1, h1)
              | Inr v1 \<Rightarrow>
                  (case setUint16 (offset s1) v1 (isLittleEndian s1) (cells h1 (buffer s1)) of
                     None \<Rightarrow> (Inl RangeError, s1, h1)
                   | Some bs1 \<Rightarrow>
                       (let h2 = put (buffer s1) bs1 h1
                        in case toInt second of
                             Inl e \<Rightarrow> (Inl e, s1, h2)
                           | Inr v2 \<Rightarrow>
                               (case setUint16 (offset s1 + 2) v2 (isLittleEndian s1)
                                       (cells h2 (buffer s1)) of
                                  None \<Rightarrow> (Inl RangeError, s1, h2)
                                | Some bs2 \<Rightarrow>
                                    (let (n, s2) = increment 4 s1
                                     in (Inr n, s2, put (buffer s1) bs2 h2)))))))"

definition writeInt16 :: "jsval \<Rightarrow> BufferStream \<Rightarrow> heap \<Rightarrow> nat outcome" where
  "writeInt16 val s h =
     (case checkSize 2 s h of
        (Inl e, s1, h1) \<Rightarrow> (Inl e, s1, h1)
      | (Inr u, s1, h1) \<Rightarrow>
          (case toInt val of
             Inl e \<Rightarrow> (Inl e, s1, h1)
           | Inr v \<Rightarrow>
               (case setInt16 (offset s1) v (isLittleEndian s1) (cells h1 (buffer s1)) of
                  None \<Rightarrow> (Inl RangeError, s1, h1)
                | Some bs \<Rightarrow>
                    (let (n, s2) = increment 2 s1 in (Inr n, s2, put (buffer s1) bs h1)))))"

definition writeUint32 :: "jsval \<Rightarrow> BufferStream \<Rightarrow> heap \<Rightarrow> nat outcome" where
  "writeUint32 val s h =
     (case checkSize 4 s h of
        (Inl e, s1, h1) \<Rightarrow> (Inl e, s1, h1)
      | (Inr u, s1, h1) \<Rightarrow>
          (case toInt val of
             Inl e \<Rightarrow> (Inl e, s1, h1)
           | Inr v \<Rightarrow>
               (case setUint32 (offset s1) v (isLittleEndian s1) (cells h1 (buffer s1)) of
                  None \<Rightarrow> (Inl RangeError, s1, h1)
                | Some bs \<Rightarrow>
                    (let (n, s2) = increment 4 s1 in (Inr n, s2, put (buffer s1) bs h1)))))"

definition writeInt32 :: "jsval \<Rightarrow> BufferStream \<Rightarrow> heap \<Rightarrow> nat outcome" where
  "writeInt32 val s h =
     (case checkSize 4 s h of
        (Inl e, s1, h1) \<Rightarrow> (Inl e, s1, h1)
      | (Inr u, s1, h1) \<Rightarrow>
          (case toInt val of
             Inl e \<Rightarrow> (Inl e, s1, h1)
           | Inr v \<Rightarrow>
               (case setInt32 (offset s1) v (isLittleEndian s1) (cells h1 (buffer s1)) of
                  None \<Rightarrow> (Inl RangeError, s1, h1)
                | Some bs \<Rightarrow>
                    (let (n, s2) = increment 4 s1 in (Inr n, s2, put (buffer s1) bs h1)))))"

definition writeFloat :: "jsval \<Rightarrow> BufferStream \<Rightarrow> heap \<Rightarrow> nat outcome" where
  "writeFloat val s h =
     (case checkSize 4 s h of
        (Inl e, s1, h1) \<Rightarrow> (Inl e, s1, h1)
      | (Inr u, s1, h1) \<Rightarrow>
          (case toFloat val of
             Inl e \<Rightarrow> (Inl e, s1, h1)
           | Inr v \<Rightarrow>
               (case setFloat32 (offset s1) v (isLittleEndian s1) (cells h1 (buffer s1)) of
                  None \<Rightarrow> (Inl RangeError, s1, h1)
                | Some bs \<Rightarrow>
                    (let (n, s2) = increment 4 s1 in (Inr n, s2, put (buffer s1) bs h1)))))"

definition writeDouble :: "jsval \<Rightarrow> BufferStream \<Rightarrow> heap \<Rightarrow> nat outcome" where
  "writeDouble val s h =
     (case checkSize 8 s h of
        (Inl e, s1, h1) \<Rightarrow> (Inl e, s1, h1)
      | (Inr u, s1, h1) \<Rightarrow>
          (case toFloat val of
             Inl e \<Rightarrow> (Inl e, s1, h1)
           | Inr v \<Rightarrow>
               (case setFloat64 (offset s1) v (isLittleEndian s1) (cells h1 (buffer s1)) of
                  None \<Rightarrow> (Inl RangeError, s1, h1)
                | Some bs \<Rightarrow>
                    (let (n, s2) = increment 8 s1 in (Inr n, s2, put (buffer s1) bs h1)))))"

subsection \<open>Readers\<close>

definition readUint32 :: "BufferStream \<Rightarrow> heap \<Rightarrow> number outcome" where
  "readUint32 s h =
     (case getUint32 (offset s) (isLittleEndian s) (cells h (buffer s)) of
        None \<Rightarrow> (Inl RangeError, s, h)
      | Some val \<Rightarrow> (Inr val, snd (increment 4 s), h))"

definition readUint16 :: "BufferStream \<Rightarrow> heap \<Rightarrow> number outcome" where
  "readUint16 s h =
     (case getUint16 (offset s) (isLittleEndian s) (cells h (buffer s)) of
        None \<Rightarrow> (Inl RangeError, s, h)
      | Some val \<Rightarrow> (Inr val, snd (increment 2 s), h))"

definition readUint8 :: "BufferStream \<Rightarrow> heap \<Rightarrow> number outcome" where
  "readUint8 s h =
     (case getUint8 (offset s) (cells h (buffer s)) of
        None \<Rightarrow> (Inl RangeError, s, h)
      | Some val \<Rightarrow> (Inr val, snd (increment 1 s), h))"

definition readInt16 :: "BufferStream \<Rightarrow> heap \<Rightarrow> number outcome" where
  "readInt16 s h =
     (case getInt16 (offset s) (isLittleEndian s) (cells h (buffer s)) of
        None \<Rightarrow> (Inl RangeError, s, h)
      | Some val \<Rightarrow> (Inr val, snd (increment 2 s), h))"

definition readInt32 :: "BufferStream \<Rightarrow> heap \<Rightarrow> number outcome" where
  "readInt32 s h =
     (case getInt32 (offset s) (isLittleEndian s) (cells h (buffer s)) of
        None \<Rightarrow> (Inl RangeError, s, h)
      | Some val \<Rightarrow> (Inr val, snd (increment 4 s), h))"

definition readFloat :: "BufferStream \<Rightarrow> heap \<Rightarrow> number outcome" where
  "readFloat s h =
     (case getFloat32 (offset s) (isLittleEndian s) (cells h (buffer s)) of
        None \<Rightarrow> (Inl RangeError, s, h)
      | Some val \<Rightarrow> (Inr val, snd (increment 4 s), h))"

definition readDouble :: "BufferStream \<Rightarrow> heap \<Rightarrow> number outcome" where
  "readDouble s h =
     (case getFloat64 (offset s) (isLittleEndian s) (cells h (buffer s)) of
        None \<Rightarrow> (Inl RangeError, s, h)
      | Some val \<Rightarrow> (Inr val, snd (increment 8 s), h))"

text \<open>
  \<open>readUint8Array\<close> returns a \<open>Uint8Array\<close> over the cursor's own buffer (no copy):
  the reference, the start and the length. The constructor of the typed array raises
  a \<open>RangeError\<close> when the range does not fit the buffer.
\<close>

record Uint8Array =
  array_buffer :: ref
  array_offset :: nat
  array_length :: nat

definition elements :: "heap \<Rightarrow> Uint8Array \<Rightarrow> byte list" where
  "elements h a = take (array_length a) (drop (array_offset a) (cells h (array_buffer a)))"

definition readUint8Array :: "nat \<Rightarrow> BufferStream \<Rightarrow> heap \<Rightarrow> Uint8Array outcome" where
  "readUint8Array len s h =
     (if byteLength h (buffer s) < offset s + len then (Inl RangeError, s, h)
      else (Inr \<lparr>array_buffer = buffer s, array_offset = offset s, array_length = len\<rparr>,
            snd (increment len s), h))"

text \<open>
  \<open>readUint16Array\<close>: \<open>sixlen\<close> is \<open>length / 2\<close>, the array has \<open>\<lfloor>sixlen\<rfloor>\<close> elements,
  all 0. The test \<open>i++ < sixlen\<close> compares the old \<open>i\<close> and the body runs with the new
  one; a store into a typed array beyond its length does nothing. The loop adds to
  \<open>offset\<close> directly, without \<open>increment\<close>.
\<close>

function readUint16Array_loop ::
  "nat \<Rightarrow> nat \<Rightarrow> 16 word list \<Rightarrow> BufferStream \<Rightarrow> heap \<Rightarrow> (16 word list) outcome" where
  "readUint16Array_loop i len arr s h =
     (if 2 * i < len then
        (let i1 = i + 1
         in case getUint16 (offset s) (isLittleEndian s) (cells h (buffer s)) of
              None \<Rightarrow> (Inl RangeError, s, h)
            | Some v \<Rightarrow>
                readUint16Array_loop i1 len
                  (if i1 < length arr then arr[i1 := word_of_nat (ToUint 16 v)] else arr)
                  (s\<lparr>offset := offset s + 2\<rparr>) h)
      else (Inr arr, s, h))"
  by pat_completeness auto
termination
  by (relation "measure (\<lambda>(i, len, arr, s, h). len - 2 * i)") auto

declare readUint16Array_loop.simps [simp del]

definition readUint16Array :: "nat \<Rightarrow> BufferStream \<Rightarrow> heap \<Rightarrow> (16 word list) outcome" where
  "readUint16Array len s h = readUint16Array_loop 0 len (replicate (len div 2) 0) s h"

subsection \<open>Hexadecimal strings\<close>

text \<open>\<open>parseInt(c, 16)\<close> of a string of one character; \<open>None\<close> is \<open>NaN\<close>.\<close>

definition hexDigit :: "char \<Rightarrow> nat option" where
  "hexDigit c =
     (let n = (of_char c :: nat)
      in if 48 \<le> n \<and> n \<le> 57 then Some (n - 48)
         else if 97 \<le> n \<and> n \<le> 102 then Some (n - 87)
         else if 65 \<le> n \<and> n \<le> 70 then Some (n - 55)
         else None)"

text \<open>\<open>(code << 4) | nextCode\<close>: the bitwise operators take \<open>NaN\<close> as 0.\<close>

definition hexCode :: "char \<Rightarrow> char \<Rightarrow> nat" where
  "hexCode c d =
     or (push_bit 4 (case hexDigit c of None \<Rightarrow> 0 | Some x \<Rightarrow> x))
        (case hexDigit d of None \<Rightarrow> 0 | Some y \<Rightarrow> y)"

text \<open>
  The loop of \<open>writeHex\<close>, two characters at a time; a last character alone is
  stored as \<open>parseInt\<close> gives it. The result is the buffer, and whether no setter
  raised.
\<close>

fun writeHex_loop :: "string \<Rightarrow> nat \<Rightarrow> byte list \<Rightarrow> bool \<times> byte list" where
  "writeHex_loop (c # d # cs) startOffset buf =
     (case setUint8 startOffset (JNumber (Number_of_int (int (hexCode c d)))) buf of
        None \<Rightarrow> (False, buf)
      | Some bs \<Rightarrow> writeHex_loop cs (startOffset + 1) bs)"
| "writeHex_loop [c] startOffset buf =
     (case setUint8 startOffset
             (case hexDigit c of
                None \<Rightarrow> JNumber NaN
              | Some x \<Rightarrow> JNumber (Number_of_int (int x))) buf of
        None \<Rightarrow> (False, buf)
      | Some bs \<Rightarrow> (True, bs))"
| "writeHex_loop [] startOffset buf = (True, buf)"

text \<open>
  \<open>checkSize(k + 1/2)\<close>, as \<open>writeHex\<close> calls it for \<open>2 * k + 1\<close> characters:
  \<open>offset + k + 1/2\<close> exceeds the capacity when \<open>offset + k + 1\<close> does, and
  \<open>new ArrayBuffer\<close> truncates the length to \<open>offset + k\<close>.
\<close>

definition checkSize_half :: "nat \<Rightarrow> BufferStream \<Rightarrow> heap \<Rightarrow> unit outcome" where
  "checkSize_half k s h =
     (if byteLength h (buffer s) < offset s + k + 1 then
        let dstSize = offset s + k;
            (dst, h1) = new_ArrayBuffer (replicate dstSize 0) h
        in case poke 0 (cells h1 (buffer s)) (cells h1 dst) of
             None \<Rightarrow> (Inl RangeError, s, h1)
           | Some bs \<Rightarrow> (Inr (), s\<lparr>buffer := dst\<rparr>, put dst bs h1)
      else (Inr (), s, h))"

text \<open>
  With \<open>2 * k + 1\<close> characters \<open>blen\<close> is \<open>k + 1/2\<close>. A buffer without room for
  \<open>k + 1\<close> bytes is replaced by one with room for \<open>k\<close>, the first \<open>k\<close> bytes are
  stored and the setter raises a \<open>RangeError\<close> for the last character. With room, all
  \<open>k + 1\<close> bytes are stored and \<open>increment\<close> leaves \<open>offset + k + 1/2\<close> in the offset,
  which the record cannot hold: the result is then \<open>FractionalOffset\<close>, with the store as
  the code leaves it and the cursor as it was before \<open>increment\<close>.
\<close>

definition writeHex :: "string \<Rightarrow> BufferStream \<Rightarrow> heap \<Rightarrow> nat outcome" where
  "writeHex val s h =
     (let len = length val; blen = len div 2; startOffset = offset s
      in case (if even len then checkSize blen s h else checkSize_half blen s h) of
           (Inl e, s1, h1) \<Rightarrow> (Inl e, s1, h1)
         | (Inr u, s1, h1) \<Rightarrow>
             (case writeHex_loop val startOffset (cells h1 (buffer s1)) of
                (False, bs) \<Rightarrow> (Inl RangeError, s1, put (buffer s1) bs h1)
              | (True, bs) \<Rightarrow>
                  if even len
                  then (let (n, s2) = increment blen s1 in (Inr n, s2, put (buffer s1) bs h1))
                  else (Inl FractionalOffset, s1, put (buffer s1) bs h1)))"

text \<open>
  \<open>Number.prototype.toString(16)\<close> of a Number that is a natural number, as
  \<open>readUint8\<close> returns: lowercase digits, nothing in front.
\<close>

definition hexChar :: "nat \<Rightarrow> char" where
  "hexChar d = ''0123456789abcdef'' ! d"

fun toString16_nat :: "nat \<Rightarrow> string" where
  "toString16_nat n =
     (if n < 16 then [hexChar n] else toString16_nat (n div 16) @ [hexChar (n mod 16)])"

declare toString16_nat.simps [simp del]

definition toString16 :: "number \<Rightarrow> string" where
  "toString16 v = toString16_nat (nat (ToIntegral v))"

fun readHex_loop :: "nat \<Rightarrow> string \<Rightarrow> BufferStream \<Rightarrow> heap \<Rightarrow> string outcome" where
  "readHex_loop 0 hexString s h = (Inr hexString, s, h)"
| "readHex_loop (Suc n) hexString s h =
     (case readUint8 s h of
        (Inl e, s1, h1) \<Rightarrow> (Inl e, s1, h1)
      | (Inr v, s1, h1) \<Rightarrow> readHex_loop n (hexString @ toString16 v) s1 h1)"

definition readHex :: "nat \<Rightarrow> BufferStream \<Rightarrow> heap \<Rightarrow> string outcome" where
  "readHex len s h = readHex_loop len [] s h"

subsection \<open>Buffers and sub-ranges\<close>

text \<open>
  \<open>getBuffer\<close>: an argument can be left out; \<open>!x\<close> holds of a missing argument and of
  0. \<open>slice\<close> takes a missing start as 0 and a missing end as the length, and makes a
  new buffer.
\<close>

definition falsy :: "nat option \<Rightarrow> bool" where
  "falsy x = (x = None \<or> x = Some 0)"

definition getBuffer :: "nat option \<Rightarrow> nat option \<Rightarrow> BufferStream \<Rightarrow> heap \<Rightarrow> ref \<times> heap" where
  "getBuffer start end s h =
     (let (start1, end1) =
            (if falsy start \<and> falsy end then (Some 0, Some (size_bs s)) else (start, end));
          buf = cells h (buffer s)
      in new_ArrayBuffer
           (slice (case start1 of None \<Rightarrow> 0 | Some a \<Rightarrow> a)
                  (case end1 of None \<Rightarrow> length buf | Some b \<Rightarrow> b) buf) h)"

text \<open>
  \<open>concat\<close>: \<open>stream\<close> is the other cursor, as it is when the call starts (it is only
  read, and before any assignment to this cursor).
\<close>

definition concat_bs :: "BufferStream \<Rightarrow> BufferStream \<Rightarrow> heap \<Rightarrow> nat outcome" where
  "concat_bs stream s h =
     (let available = int (byteLength h (buffer s)) - int (offset s)
      in if available < int (size_bs stream) then
           let (newbuf, h1) = new_ArrayBuffer (replicate (offset s + size_bs stream) 0) h;
               (b1, h2) = getBuffer (Some 0) (Some (offset s)) s h1
           in case poke 0 (cells h2 b1) (cells h2 newbuf) of
                None \<Rightarrow> (Inl RangeError, s, h2)
              | Some bs1 \<Rightarrow>
                  (let h3 = put newbuf bs1 h2;
                       (b2, h4) = getBuffer (Some 0) (Some (size_bs stream)) stream h3
                   in case poke (offset s) (cells h4 b2) (cells h4 newbuf) of
                        None \<Rightarrow> (Inl RangeError, s, h4)
                      | Some bs2 \<Rightarrow>
                          (let h5 = put newbuf bs2 h4;
                               s1 = s\<lparr>buffer := newbuf\<rparr>;
                               s2 = s1\<lparr>offset := offset s1 + size_bs stream\<rparr>;
                               s3 = s2\<lparr>size_bs := offset s2\<rparr>
                           in (Inr (byteLength h5 (buffer s3)), s3, h5)))
         else
           let (b2, h1) = getBuffer (Some 0) (Some (size_bs stream)) stream h
           in case poke (offset s) (cells h1 b2) (cells h1 (buffer s)) of
                None \<Rightarrow> (Inl RangeError, s, h1)
              | Some bs \<Rightarrow>
                  (let h2 = put (buffer s) bs h1;
                       s2 = s\<lparr>offset := offset s + size_bs stream\<rparr>;
                       s3 = s2\<lparr>size_bs := offset s2\<rparr>
                   in (Inr (byteLength h2 (buffer s3)), s3, h2)))"

text \<open>\<open>more\<close>: the result is the new cursor; the outcome carries this cursor.\<close>

definition more_bs :: "nat \<Rightarrow> BufferStream \<Rightarrow> heap \<Rightarrow> BufferStream outcome" where
  "more_bs len s h =
     (if byteLength h (buffer s) < offset s + len then (Inl RequestMore, s, h)
      else let (newBuf, h1) =
                 new_ArrayBuffer (slice (offset s) (offset s + len) (cells h (buffer s))) h;
               (n, s1) = increment len s;
               (sub, h2) = ReadBufferStream_new (ArgBuffer newBuf) None h1
           in (Inr sub, s1, h2))"

definition reset :: "BufferStream \<Rightarrow> BufferStream" where
  "reset s = s\<lparr>offset := 0\<rparr>"

definition end_bs :: "BufferStream \<Rightarrow> heap \<Rightarrow> bool" where
  "end_bs s h = (byteLength h (buffer s) \<le> offset s)"

definition toEnd :: "BufferStream \<Rightarrow> heap \<Rightarrow> BufferStream" where
  "toEnd s h = s\<lparr>offset := byteLength h (buffer s)\<rparr>"

subsection \<open>The fixed-width numeric types\<close>

text \<open>
  The methods by the type they write or read. The class defines no \<open>readInt8\<close>: a call
  of it raises a \<open>TypeError\<close>.
\<close>

datatype numtype = Uint8 | Int8 | Uint16 | Int16 | Uint32 | Int32 | Float | Double

fun width :: "numtype \<Rightarrow> nat" where
  "width Uint8 = 1"
| "width Int8 = 1"
| "width Uint16 = 2"
| "width Int16 = 2"
| "width Uint32 = 4"
| "width Int32 = 4"
| "width Float = 4"
| "width Double = 8"

fun write_num :: "numtype \<Rightarrow> jsval \<Rightarrow> BufferStream \<Rightarrow> heap \<Rightarrow> nat outcome" where
  "write_num Uint8 = writeUint8"
| "write_num Int8 = writeInt8"
| "write_num Uint16 = writeUint16"
| "write_num Int16 = writeInt16"
| "write_num Uint32 = writeUint32"
| "write_num Int32 = writeInt32"
| "write_num Float = writeFloat"
| "write_num Double = writeDouble"

fun read_num :: "numtype \<Rightarrow> BufferStream \<Rightarrow> heap \<Rightarrow> number outcome" where
  "read_num Uint8 = readUint8"
| "read_num Int8 = (\<lambda>s h. (Inl TypeError, s, h))"
| "read_num Uint16 = readUint16"
| "read_num Int16 = readInt16"
| "read_num Uint32 = readUint32"
| "read_num Int32 = readInt32"
| "read_num Float = readFloat"
| "read_num Double = readDouble"

section \<open>Notions used in the statements\<close>

text \<open>A store with no buffer, and the references that are allocated in a store.\<close>

definition empty_heap :: heap where
  "empty_heap = \<lparr>cells = (\<lambda>r. []), fresh = 0\<rparr>"

definition allocated :: "heap \<Rightarrow> ref \<Rightarrow> bool" where
  "allocated h r = (r < fresh h)"

text \<open>
  The bit pattern that a setter stores for a Number, and its bytes in memory order.
\<close>

fun raw_bits :: "numtype \<Rightarrow> number \<Rightarrow> nat" where
  "raw_bits Uint8 x = ToUint 8 x"
| "raw_bits Int8 x = ToUint 8 x"
| "raw_bits Uint16 x = ToUint 16 x"
| "raw_bits Int16 x = ToUint 16 x"
| "raw_bits Uint32 x = ToUint 32 x"
| "raw_bits Int32 x = ToUint 32 x"
| "raw_bits Float x = binary32_of x"
| "raw_bits Double x = unat x"

definition encode :: "numtype \<Rightarrow> bool \<Rightarrow> number \<Rightarrow> byte list" where
  "encode T littleEndian x = ordered littleEndian (le_bytes (width T) (raw_bits T x))"

text \<open>The Numbers that are values of a type; for the floating types, all but \<open>NaN\<close>.\<close>

definition is_NaN32 :: "nat \<Rightarrow> bool" where
  "is_NaN32 x = (x div 2 ^ 23 mod 2 ^ 8 = 255 \<and> x mod 2 ^ 23 \<noteq> 0)"

fun typed_value :: "numtype \<Rightarrow> number \<Rightarrow> bool" where
  "typed_value Uint8 v = (\<exists>i\<in>{0..<2 ^ 8}. v = Number_of_int i)"
| "typed_value Int8 v = (\<exists>i\<in>{- (2 ^ 7)..<2 ^ 7}. v = Number_of_int i)"
| "typed_value Uint16 v = (\<exists>i\<in>{0..<2 ^ 16}. v = Number_of_int i)"
| "typed_value Int16 v = (\<exists>i\<in>{- (2 ^ 15)..<2 ^ 15}. v = Number_of_int i)"
| "typed_value Uint32 v = (\<exists>i\<in>{0..<2 ^ 32}. v = Number_of_int i)"
| "typed_value Int32 v = (\<exists>i\<in>{- (2 ^ 31)..<2 ^ 31}. v = Number_of_int i)"
| "typed_value Float v = (\<exists>x\<in>{0..<2 ^ 32}. \<not> is_NaN32 x \<and> v = Number_of_binary32 x)"
| "typed_value Double v = (\<not> is_NaN v)"

text \<open>
  The Number that a getter returns for the bytes it reads (the class has no reader for
  \<open>Int8\<close>; the clause for it is what \<open>getInt8\<close> returns).
\<close>

fun decode :: "numtype \<Rightarrow> bool \<Rightarrow> byte list \<Rightarrow> number" where
  "decode Uint8 littleEndian bs = Number_of_int (int (le_nat bs))"
| "decode Int8 littleEndian bs = Number_of_int (twos_complement 8 (le_nat bs))"
| "decode Uint16 littleEndian bs = Number_of_int (int (le_nat (ordered littleEndian bs)))"
| "decode Int16 littleEndian bs =
     Number_of_int (twos_complement 16 (le_nat (ordered littleEndian bs)))"
| "decode Uint32 littleEndian bs = Number_of_int (int (le_nat (ordered littleEndian bs)))"
| "decode Int32 littleEndian bs =
     Number_of_int (twos_complement 32 (le_nat (ordered littleEndian bs)))"
| "decode Float littleEndian bs = Number_of_binary32 (le_nat (ordered littleEndian bs))"
| "decode Double littleEndian bs = word_of_nat (le_nat (ordered littleEndian bs))"

text \<open>
  Writing a value, then reading the same type back from offset 0: the result of the
  read.
\<close>

definition write_then_read :: "numtype \<Rightarrow> jsval \<Rightarrow> BufferStream \<Rightarrow> heap \<Rightarrow> error + number" where
  "write_then_read T val s h =
     (case write_num T val s h of (r, s1, h1) \<Rightarrow> fst (read_num T (reset s1) h1))"

text \<open>
  A run of numeric writes on one cursor, with the result of each. A write that raises
  is followed by the next one, as for a caller that catches the error.
\<close>

fun writes :: "(numtype \<times> jsval) list \<Rightarrow> BufferStream \<Rightarrow> heap \<Rightarrow> (error + nat) list \<times> BufferStream \<times> heap" where
  "writes [] s h = ([], s, h)"
| "writes ((T, val) # ops) s h =
     (case write_num T val s h of
        (r, s1, h1) \<Rightarrow> (case writes ops s1 h1 of (rs, s2, h2) \<Rightarrow> (r # rs, s2, h2)))"

text \<open>
  The shape that the eight numeric writers share: the width, the result of \<open>toInt\<close> or
  \<open>toFloat\<close>, and the bytes that the setter stores.
\<close>

definition write_with ::
  "nat \<Rightarrow> (error + jsval) \<Rightarrow> (jsval \<Rightarrow> bool \<Rightarrow> byte list) \<Rightarrow> BufferStream \<Rightarrow> heap \<Rightarrow> nat outcome" where
  "write_with n accepted enc s h =
     (case checkSize n s h of
        (Inl e, s1, h1) \<Rightarrow> (Inl e, s1, h1)
      | (Inr u, s1, h1) \<Rightarrow>
          (case accepted of
             Inl e \<Rightarrow> (Inl e, s1, h1)
           | Inr v \<Rightarrow>
               (case poke (offset s1) (enc v (isLittleEndian s1)) (cells h1 (buffer s1)) of
                  None \<Rightarrow> (Inl RangeError, s1, h1)
                | Some bs \<Rightarrow>
                    (let (k, s2) = increment n s1 in (Inr k, s2, put (buffer s1) bs h1)))))"

text \<open>A Write cursor made with no buffer argument, in a store with no other buffer.\<close>

definition fresh_writer :: "BufferStream \<times> heap" where
  "fresh_writer = WriteBufferStream_new ArgAbsent None empty_heap"

text \<open>
  The Number that a writer hands to its setter for a value it accepts: \<open>parseInt\<close> or
  \<open>parseFloat\<close> of a string, the value itself otherwise (the setter applies
  \<open>ToNumber\<close>).
\<close>

definition coerced :: "numtype \<Rightarrow> jsval \<Rightarrow> number" where
  "coerced T val =
     (case val of
        JString str n i f \<Rightarrow> (if T = Float \<or> T = Double then f else i)
      | _ \<Rightarrow> ToNumber val)"

section \<open>Evaluation\<close>

lemma bitlen_0 [simp]: "bitlen 0 = 0"
  by (simp add: bitlen.simps)

lemma bitlen_1 [simp]: "bitlen 1 = 1" "bitlen (Suc 0) = 1"
  by (simp_all add: bitlen.simps)

lemma bitlen_Bit0 [simp]: "bitlen (numeral (Num.Bit0 n)) = Suc (bitlen (numeral n))"
  by (subst bitlen.simps) simp

lemma bitlen_Bit1 [simp]: "bitlen (numeral (Num.Bit1 n)) = Suc (bitlen (numeral n))"
  by (subst bitlen.simps) simp

lemma replicate_numeral_eq: "replicate (numeral k) x = x # replicate (pred_numeral k) x"
  by (simp add: numeral_eq_Suc [of k])

lemma le_bytes_numeral:
  "le_bytes (numeral k) x = word_of_nat (x mod 256) # le_bytes (pred_numeral k) (x div 256)"
  by (simp add: numeral_eq_Suc [of k])

lemma readHex_loop_numeral:
  "readHex_loop (numeral k) str s h =
     (case readUint8 s h of
        (Inl e, s1, h1) \<Rightarrow> (Inl e, s1, h1)
      | (Inr v, s1, h1) \<Rightarrow> readHex_loop (pred_numeral k) (str @ toString16 v) s1 h1)"
  by (simp add: numeral_eq_Suc [of k])

lemma toString16_nat_digit: "n < 16 \<Longrightarrow> toString16_nat n = [hexChar n]"
  by (simp add: toString16_nat.simps)

lemma toString16_nat_two:
  "16 \<le> n \<Longrightarrow> n < 256 \<Longrightarrow> toString16_nat n = [hexChar (n div 16), hexChar (n mod 16)]"
  by (subst toString16_nat.simps) (simp add: toString16_nat_digit)

lemmas number_defs =
  Number_of_int_def ToIntegral_def ToUint_def make_number_def expo_def mant_def sign_bit_def
  is_NaN_def NaN_def twos_complement_def

lemmas stream_defs =
  BufferStream_new_def ReadBufferStream_new_def WriteBufferStream_new_def new_ArrayBuffer_def
  byteLength_def put_def increment_def reset_def empty_heap_def allocated_def

section \<open>Facts about the numeric writers\<close>

lemma length_le_bytes [simp]: "length (le_bytes n x) = n"
  by (induction n arbitrary: x) simp_all

lemma length_ordered [simp]: "length (ordered le bs) = length bs"
  by (simp add: ordered_def)

lemma length_encode [simp]: "length (encode T le x) = width T"
  by (simp add: encode_def)

lemma increment_eq:
  "increment n s = (n, s\<lparr>offset := offset s + n, size_bs := max (size_bs s) (offset s + n)\<rparr>)"
  by (simp add: increment_def Let_def max_def)

lemma checkSize_keep:
  "offset s + step \<le> byteLength h (buffer s) \<Longrightarrow> checkSize step s h = (Inr (), s, h)"
  by (simp add: checkSize_def)

lemma checkSize_grow:
  assumes "allocated h (buffer s)" "byteLength h (buffer s) < offset s + step"
  shows "checkSize step s h =
           (Inr (), s\<lparr>buffer := fresh h\<rparr>,
            \<lparr>cells = (cells h)(fresh h :=
                 cells h (buffer s) @ replicate (offset s + step - byteLength h (buffer s)) 0),
             fresh = Suc (fresh h)\<rparr>)"
  using assms
  by (simp add: checkSize_def allocated_def new_ArrayBuffer_def byteLength_def poke_def put_def)

lemma write_with_keep:
  assumes "offset s + n \<le> byteLength h (buffer s)" "length (enc v (isLittleEndian s)) = n"
  shows "write_with n (Inr v) enc s h =
     (Inr n, s\<lparr>offset := offset s + n, size_bs := max (size_bs s) (offset s + n)\<rparr>,
      put (buffer s)
        (take (offset s) (cells h (buffer s)) @ enc v (isLittleEndian s) @
         drop (offset s + n) (cells h (buffer s))) h)"
  using assms
  by (simp add: write_with_def checkSize_keep increment_eq poke_def byteLength_def)

lemma write_with_grow:
  assumes "allocated h (buffer s)" "byteLength h (buffer s) < offset s + n"
    "length (enc v (isLittleEndian s)) = n"
  shows "write_with n (Inr v) enc s h =
     (Inr n,
      s\<lparr>buffer := fresh h, offset := offset s + n, size_bs := max (size_bs s) (offset s + n)\<rparr>,
      \<lparr>cells = (cells h)(fresh h :=
           take (offset s)
             (cells h (buffer s) @ replicate (offset s + n - byteLength h (buffer s)) 0) @
           enc v (isLittleEndian s)),
       fresh = Suc (fresh h)\<rparr>)"
  using assms
  by (simp add: write_with_def checkSize_grow increment_eq poke_def byteLength_def put_def)

lemma write_with_fail:
  "write_with n (Inl e) enc s h =
     (case checkSize n s h of (r, s1, h1) \<Rightarrow>
        ((case r of Inl e' \<Rightarrow> Inl e' | Inr u \<Rightarrow> Inl e), s1, h1))"
  by (simp add: write_with_def split: prod.splits sum.splits)

lemma ordered_single [simp]: "ordered le [b] = [b]"
  by (simp add: ordered_def)

lemma writeUint8_shape:
  "writeUint8 val s h = write_with 1 (toInt val) (\<lambda>v le. le_bytes 1 (ToUint 8 (ToNumber v))) s h"
  unfolding writeUint8_def write_with_def setUint8_def by (rule refl)

lemma writeInt8_shape:
  "writeInt8 val s h = write_with 1 (toInt val) (\<lambda>v le. le_bytes 1 (ToUint 8 (ToNumber v))) s h"
  unfolding writeInt8_def write_with_def setInt8_def by (rule refl)

lemma writeUint16_shape:
  "writeUint16 val s h = write_with 2 (toInt val) (\<lambda>v le. ordered le (le_bytes 2 (ToUint 16 (ToNumber v)))) s h"
  unfolding writeUint16_def write_with_def setUint16_def by (rule refl)

lemma writeInt16_shape:
  "writeInt16 val s h = write_with 2 (toInt val) (\<lambda>v le. ordered le (le_bytes 2 (ToUint 16 (ToNumber v)))) s h"
  unfolding writeInt16_def write_with_def setInt16_def by (rule refl)

lemma writeUint32_shape:
  "writeUint32 val s h = write_with 4 (toInt val) (\<lambda>v le. ordered le (le_bytes 4 (ToUint 32 (ToNumber v)))) s h"
  unfolding writeUint32_def write_with_def setUint32_def by (rule refl)

lemma writeInt32_shape:
  "writeInt32 val s h = write_with 4 (toInt val) (\<lambda>v le. ordered le (le_bytes 4 (ToUint 32 (ToNumber v)))) s h"
  unfolding writeInt32_def write_with_def setInt32_def by (rule refl)

lemma writeFloat_shape:
  "writeFloat val s h = write_with 4 (toFloat val) (\<lambda>v le. ordered le (le_bytes 4 (binary32_of (ToNumber v)))) s h"
  unfolding writeFloat_def write_with_def setFloat32_def by (rule refl)

lemma writeDouble_shape:
  "writeDouble val s h = write_with 8 (toFloat val) (\<lambda>v le. ordered le (le_bytes 8 (unat (ToNumber v)))) s h"
  unfolding writeDouble_def write_with_def setFloat64_def by (rule refl)

lemma write_num_shape:
  "write_num T val s h =
     write_with (width T) (if T = Float \<or> T = Double then toFloat val else toInt val)
       (\<lambda>v le. encode T le (ToNumber v)) s h"
  by (cases T)
    (simp_all add: writeUint8_shape writeInt8_shape writeUint16_shape writeInt16_shape
      writeUint32_shape writeInt32_shape writeFloat_shape writeDouble_shape encode_def)


lemma toInt_number: "\<not> is_NaN x \<Longrightarrow> toInt (JNumber x) = Inr (JNumber x)"
  by (simp add: toInt_def isNaN_def)

lemma toFloat_number: "\<not> is_NaN x \<Longrightarrow> toFloat (JNumber x) = Inr (JNumber x)"
  by (simp add: toFloat_def isNaN_def)

lemma write_with_ok:
  assumes "allocated h (buffer s)" "length (enc v (isLittleEndian s)) = n"
  shows "\<exists>s' h'. write_with n (Inr v) enc s h = (Inr n, s', h') \<and>
           byteLength h' (buffer s') = max (byteLength h (buffer s)) (offset s + n) \<and>
           take n (drop (offset s) (cells h' (buffer s'))) = enc v (isLittleEndian s) \<and>
           offset s' = offset s + n \<and>
           size_bs s' = max (size_bs s) (offset s') \<and>
           isLittleEndian s' = isLittleEndian s \<and>
           allocated h' (buffer s')"
proof (cases "byteLength h (buffer s) < offset s + n")
  case True
  show ?thesis
    using assms True
    by (simp add: write_with_grow byteLength_def allocated_def)
next
  case False
  then show ?thesis
    using assms
    by (simp add: write_with_keep byteLength_def allocated_def put_def)
qed

lemma coercion_accepts:
  assumes "\<not> isNaN val"
  shows "\<exists>v. (if T = Float \<or> T = Double then toFloat val else toInt val) = Inr v \<and>
             ToNumber v = coerced T val"
proof (cases val)
  case (JBool b)
  with assms show ?thesis
    by (cases b) (simp_all add: toInt_def toFloat_def coerced_def)
qed (use assms in \<open>simp_all add: toInt_def toFloat_def coerced_def\<close>)

lemma coercion_rejects:
  "isNaN val \<Longrightarrow>
     (if T = Float \<or> T = Double then toFloat val else toInt val) = Inl (NotANumber val)"
  by (simp add: toInt_def toFloat_def)

lemma checkSize_ok:
  assumes "allocated h (buffer s)"
  shows "\<exists>s' h'. checkSize step s h = (Inr (), s', h') \<and>
           offset s' = offset s \<and> size_bs s' = size_bs s \<and>
           isLittleEndian s' = isLittleEndian s \<and>
           byteLength h' (buffer s') = max (byteLength h (buffer s)) (offset s + step) \<and>
           take (byteLength h (buffer s)) (cells h' (buffer s')) = cells h (buffer s) \<and>
           (offset s + step \<le> byteLength h (buffer s) \<longrightarrow> s' = s \<and> h' = h)"
proof (cases "byteLength h (buffer s) < offset s + step")
  case True
  with assms show ?thesis
    by (simp add: checkSize_grow byteLength_def)
next
  case False
  then show ?thesis
    by (simp add: checkSize_keep byteLength_def)
qed

lemma write_with_below:
  assumes "allocated h (buffer s)" "\<And>v. length (enc v (isLittleEndian s)) = n"
    "write_with n c enc s h = (r, s', h')" "i < offset s" "i < byteLength h (buffer s)"
  shows "cells h' (buffer s') ! i = cells h (buffer s) ! i"
proof (cases c)
  case (Inl e)
  from checkSize_ok [OF assms(1), of n] obtain s1 h1 where
    c: "checkSize n s h = (Inr (), s1, h1)"
       "take (byteLength h (buffer s)) (cells h1 (buffer s1)) = cells h (buffer s)"
    by blast
  from assms(3) have "s' = s1" "h' = h1"
    by (simp_all add: Inl write_with_fail c)
  with c(2) assms(5) show ?thesis
    by (metis nth_take)
next
  case (Inr v)
  show ?thesis
  proof (cases "byteLength h (buffer s) < offset s + n")
    case True
    from assms(3) show ?thesis
      using assms(1,2,4,5) True
      by (auto simp add: Inr write_with_grow nth_append byteLength_def)
  next
    case False
    then have k: "offset s + n \<le> byteLength h (buffer s)"
      by simp
    from assms(3) show ?thesis
      using assms(2,4,5) k
      by (auto simp add: Inr write_with_keep nth_append byteLength_def put_def)
  qed
qed


lemma write_with_frame:
  assumes "allocated h (buffer s)" "\<And>v. length (enc v (isLittleEndian s)) = n"
    "write_with n c enc s h = (r, s', h')"
  shows "allocated h' (buffer s') \<and> fresh h \<le> fresh h' \<and>
         (buffer s' = buffer s \<or> buffer s' = fresh h) \<and>
         (\<forall>q. q \<noteq> buffer s' \<longrightarrow> cells h' q = cells h q)"
proof (cases "byteLength h (buffer s) < offset s + n")
  case True
  show ?thesis
  proof (cases c)
    case (Inl e)
    from assms(3) show ?thesis
      using assms(1) True
      by (auto simp add: Inl write_with_fail checkSize_grow allocated_def)
  next
    case (Inr v)
    from assms(3) show ?thesis
      using assms(1,2) True
      by (auto simp add: Inr write_with_grow allocated_def)
  qed
next
  case False
  then have k: "offset s + n \<le> byteLength h (buffer s)"
    by simp
  show ?thesis
  proof (cases c)
    case (Inl e)
    from assms(3) show ?thesis
      using assms(1) k
      by (auto simp add: Inl write_with_fail checkSize_keep)
  next
    case (Inr v)
    from assms(3) show ?thesis
      using assms(1,2) k
      by (auto simp add: Inr write_with_keep put_def allocated_def)
  qed
qed

lemma write_num_frame:
  assumes "allocated h (buffer s)" "write_num T val s h = (r, s', h')"
  shows "allocated h' (buffer s') \<and> fresh h \<le> fresh h' \<and>
         (buffer s' = buffer s \<or> buffer s' = fresh h) \<and>
         (\<forall>q. q \<noteq> buffer s' \<longrightarrow> cells h' q = cells h q)"
  using assms(2) unfolding write_num_shape
  by (intro write_with_frame [OF assms(1), of "\<lambda>v le. encode T le (ToNumber v)" "width T"])
    simp_all

lemma writes_frame:
  assumes "allocated h (buffer s)" "allocated h q" "q \<noteq> buffer s"
  shows "cells (snd (snd (writes ops s h))) q = cells h q"
  using assms
proof (induction ops arbitrary: s h)
  case Nil
  then show ?case by simp
next
  case (Cons op ops)
  obtain T val where op: "op = (T, val)"
    by (cases op)
  obtain r s1 h1 where w: "write_num T val s h = (r, s1, h1)"
    by (cases "write_num T val s h") auto
  from write_num_frame [OF Cons.prems(1) w] have f:
    "allocated h1 (buffer s1)" "fresh h \<le> fresh h1"
    "buffer s1 = buffer s \<or> buffer s1 = fresh h"
    "\<forall>q. q \<noteq> buffer s1 \<longrightarrow> cells h1 q = cells h q"
    by simp_all
  from f(3) Cons.prems(2,3) have ne: "q \<noteq> buffer s1"
    by (auto simp add: allocated_def)
  from f(2) Cons.prems(2) have al: "allocated h1 q"
    by (simp add: allocated_def)
  from Cons.IH [OF f(1) al ne] f(4) ne show ?case
    by (auto simp add: op w split: prod.splits)
qed

lemma slice_within:
  assumes "a + n \<le> length buf"
  shows "slice a (a + n) buf = take n (drop a buf)"
proof -
  from assms have "min a (length buf) = a" "min (a + n) (length buf) = a + n"
    by simp_all
  then show ?thesis
    by (simp add: slice_def)
qed

lemma getBuffer_bounds:
  "getBuffer (Some a) (Some b) s h =
     (fresh h,
      \<lparr>cells = (cells h)(fresh h :=
           (if a = 0 \<and> b = 0 then slice 0 (size_bs s) (cells h (buffer s))
            else slice a b (cells h (buffer s)))),
       fresh = Suc (fresh h)\<rparr>)"
  by (simp add: getBuffer_def falsy_def new_ArrayBuffer_def)

lemma slice_front: "n \<le> length buf \<Longrightarrow> slice 0 n buf = take n buf"
  using slice_within [of 0 n buf] by simp

lemma length_slice_le: "length (slice a b buf) \<le> length buf"
  by (simp add: slice_def Let_def)

section \<open>Facts about Numbers and their bytes\<close>

lemma le_nat_le_bytes: "le_nat (le_bytes n x) = x mod 256 ^ n"
proof (induction n arbitrary: x)
  case 0
  then show ?case by simp
next
  case (Suc n)
  have "unat (word_of_nat (x mod 256) :: byte) = x mod 256"
    by (simp add: unat_of_nat)
  with Suc show ?case
    by (simp add: mod_mult2_eq)
qed

lemma ordered_ordered [simp]: "ordered le (ordered le bs) = bs"
  by (simp add: ordered_def)

lemma div_mult_add: "(r :: nat) < p \<Longrightarrow> (k * p + r) div p = k"
  by simp

lemma mod_mult_add: "(r :: nat) < p \<Longrightarrow> (k * p + r) mod p = r"
  by simp

lemma unat_make_number:
  assumes "e < 2048" "m < 2 ^ 52"
  shows "unat (make_number s e m) = (if s then 2 ^ 63 else 0) + e * 2 ^ 52 + m"
proof -
  define x where "x = (if s then 2 ^ 63 else 0) + e * 2 ^ 52 + m"
  from assms have "e * 2 ^ 52 + m < 2048 * 2 ^ 52"
    by simp
  then have "x < 2 ^ LENGTH(64)"
    by (simp add: x_def)
  then have "unat (word_of_nat x :: 64 word) = x"
    by (simp only: unat_of_nat mod_less)
  then show ?thesis
    by (simp only: make_number_def x_def)
qed

lemma expo_make_number:
  assumes "e < 2048" "m < 2 ^ 52"
  shows "expo (make_number s e m) = e"
proof -
  have "(if s then 2 ^ 63 else 0) + e * 2 ^ 52 + m = ((if s then 2048 else 0) + e) * 2 ^ 52 + m"
    by simp
  with div_mult_add [OF assms(2), of "(if s then 2048 else 0) + e"]
  have "unat (make_number s e m) div 2 ^ 52 = (if s then 2048 else 0) + e"
    by (simp only: unat_make_number [OF assms])
  with assms(1) show ?thesis
    by (simp add: expo_def)
qed

lemma mant_make_number:
  assumes "e < 2048" "m < 2 ^ 52"
  shows "mant (make_number s e m) = m"
proof -
  have "(if s then 2 ^ 63 else 0) + e * 2 ^ 52 + m = ((if s then 2048 else 0) + e) * 2 ^ 52 + m"
    by simp
  with mod_mult_add [OF assms(2), of "(if s then 2048 else 0) + e"]
  show ?thesis
    by (simp only: mant_def unat_make_number [OF assms])
qed

lemma sign_make_number:
  assumes "e < 2048" "m < 2 ^ 52"
  shows "sign_bit (make_number s e m) = s"
proof -
  from assms have r: "e * 2 ^ 52 + m < 2 ^ 63"
    by simp
  have "(if s then 2 ^ 63 else 0) + e * 2 ^ 52 + m = (if s then 1 else 0) * 2 ^ 63 + (e * 2 ^ 52 + m)"
    by simp
  with div_mult_add [OF r, of "if s then 1 else 0"]
  have "unat (make_number s e m) div 2 ^ 63 = (if s then 1 else 0)"
    by (simp only: unat_make_number [OF assms])
  then show ?thesis
    by (simp add: sign_bit_def)
qed

lemma bitlen_bounds:
  "0 < n \<Longrightarrow> 2 ^ (bitlen n - 1) \<le> n \<and> n < 2 ^ bitlen n"
proof (induction n rule: bitlen.induct)
  case (1 n)
  show ?case
  proof (cases "n div 2 = 0")
    case True
    with "1.prems" have "n = 1"
      by (simp add: div_eq_0_iff) 
    then show ?thesis
      by simp
  next
    case False
    with "1.IH" "1.prems" have ih: "2 ^ (bitlen (n div 2) - 1) \<le> n div 2" "n div 2 < 2 ^ bitlen (n div 2)"
      by simp_all
    from False have pos: "0 < bitlen (n div 2)"
      by (subst bitlen.simps) simp
    have b: "bitlen n = Suc (bitlen (n div 2))"
      using "1.prems" by (subst bitlen.simps) simp
    from pos have "(2::nat) ^ bitlen (n div 2) = 2 * 2 ^ (bitlen (n div 2) - 1)"
      by (cases "bitlen (n div 2)") simp_all
    with ih show ?thesis
      unfolding b by (simp, arith)
  qed
qed


lemma power_split: "k \<le> n \<Longrightarrow> (2::nat) ^ n = 2 ^ k * 2 ^ (n - k)"
  by (simp flip: power_add)

lemma scaled_less:
  assumes "k \<le> p" "x < 2 ^ k"
  shows "x * 2 ^ (p - k) < (2::nat) ^ p"
proof -
  from assms(2) have "x * 2 ^ (p - k) < 2 ^ k * 2 ^ (p - k)"
    by simp
  with assms(1) show ?thesis
    by (simp only: power_split [of k p])
qed

lemma scaled_significand:
  assumes "k \<le> p" "2 ^ k \<le> n"
  shows "(2::nat) ^ p + (n - 2 ^ k) * 2 ^ (p - k) = n * 2 ^ (p - k)"
proof -
  have "(2::nat) ^ p + (n - 2 ^ k) * 2 ^ (p - k) = (2 ^ k + (n - 2 ^ k)) * 2 ^ (p - k)"
    using assms(1) by (simp only: power_split [of k p] distrib_right)
  with assms(2) show ?thesis
    by simp
qed

lemma Number_of_int_fields:
  assumes "i \<noteq> 0" "\<bar>i\<bar> < 2 ^ 53"
  defines "n \<equiv> nat \<bar>i\<bar>"
  defines "k \<equiv> bitlen n - 1"
  shows "k \<le> 52"
    and "expo (Number_of_int i) = 1023 + k"
    and "2 ^ 52 + mant (Number_of_int i) = n * 2 ^ (52 - k)"
    and "sign_bit (Number_of_int i) = (i < 0)"
proof -
  from assms(1,2) have n: "0 < n" "n < 2 ^ 53"
    by (simp_all add: n_def nat_less_iff)
  from bitlen_bounds [OF n(1)] have b: "2 ^ k \<le> n" "n < 2 ^ bitlen n"
    by (simp_all add: k_def)
  from n(1) have pos: "0 < bitlen n"
    by (subst bitlen.simps) simp
  then have sk: "bitlen n = Suc k"
    by (simp add: k_def)
  from b(1) n(2) have "(2::nat) ^ k < 2 ^ 53"
    by simp
  then have "k < 53"
    by (simp only: power_strict_increasing_iff rel_simps)
  then show k: "k \<le> 52"
    by simp
  from b(2) have "n - 2 ^ k < 2 ^ k"
    by (simp add: sk)
  from scaled_less [OF k this] have m: "(n - 2 ^ k) * 2 ^ (52 - k) < 2 ^ 52" .
  from k have e: "1023 + k < 2048"
    by simp
  have N: "Number_of_int i = make_number (i < 0) (1023 + k) ((n - 2 ^ k) * 2 ^ (52 - k))"
    using assms(1) by (simp add: Number_of_int_def n_def k_def Let_def)
  show "expo (Number_of_int i) = 1023 + k"
    unfolding N by (rule expo_make_number [OF e m])
  show "sign_bit (Number_of_int i) = (i < 0)"
    unfolding N by (rule sign_make_number [OF e m])
  have "mant (Number_of_int i) = (n - 2 ^ k) * 2 ^ (52 - k)"
    unfolding N by (rule mant_make_number [OF e m])
  moreover note scaled_significand [OF k b(1)]
  ultimately show "2 ^ 52 + mant (Number_of_int i) = n * 2 ^ (52 - k)"
    by simp
qed

lemma ToIntegral_Number_of_int:
  assumes "\<bar>i\<bar> < 2 ^ 53"
  shows "ToIntegral (Number_of_int i) = i"
proof (cases "i = 0")
  case True
  then show ?thesis
    by (simp add: Number_of_int_def ToIntegral_def expo_def)
next
  case False
  define n where "n = nat \<bar>i\<bar>"
  define k where "k = bitlen n - 1"
  note f = Number_of_int_fields [OF False assms, folded n_def, folded k_def]
  have mag: "(if 1075 \<le> expo (Number_of_int i)
              then (2 ^ 52 + mant (Number_of_int i)) * 2 ^ (expo (Number_of_int i) - 1075)
              else (2 ^ 52 + mant (Number_of_int i)) div 2 ^ (1075 - expo (Number_of_int i))) = n"
  proof (cases "k = 52")
    case True
    with f(3) show ?thesis
      by (simp add: f(2))
  next
    case False
    with f(1) have "k < 52"
      by simp
    with f(3) show ?thesis
      by (simp add: f(2))
  qed
  from f(1) have e: "\<not> (expo (Number_of_int i) = 2047 \<or> expo (Number_of_int i) = 0)"
    by (simp add: f(2))
  have "ToIntegral (Number_of_int i) = (if i < 0 then - int n else int n)"
    unfolding ToIntegral_def Let_def mag f(4) using e by simp
  then show ?thesis
    by (simp add: n_def)
qed

lemma Number_of_int_not_NaN:
  assumes "\<bar>i\<bar> < 2 ^ 53"
  shows "\<not> is_NaN (Number_of_int i)"
proof (cases "i = 0")
  case True
  then show ?thesis
    by (simp add: Number_of_int_def is_NaN_def expo_def)
next
  case False
  from Number_of_int_fields(1,2) [OF False assms] show ?thesis
    by (simp add: is_NaN_def)
qed


lemma round_shift_exact: "round_shift (a * 2 ^ j) j = a"
  by (simp add: round_shift_def)

lemma binary32_parts:
  assumes "(x::nat) < 2 ^ 32"
  shows "x = (if x div 2 ^ 31 = 1 then 2 ^ 31 else 0) + (x div 2 ^ 23 mod 2 ^ 8) * 2 ^ 23 + x mod 2 ^ 23"
proof -
  define q where "q = x div 2 ^ 23"
  define r where "r = x mod 2 ^ 23"
  define d where "d = q div 2 ^ 8"
  define c where "c = q mod 2 ^ 8"
  have a: "x = q * 2 ^ 23 + r"
    by (simp add: q_def r_def)
  have b: "q = d * 2 ^ 8 + c"
    by (simp add: d_def c_def)
  have dx: "d = x div 2 ^ 31"
    by (simp add: d_def q_def div_mult2_eq [symmetric])
  from assms have "x div 2 ^ 31 < 2"
    by (simp add: less_mult_imp_div_less)
  then have d: "d = 0 \<or> d = 1"
    unfolding dx by auto
  have "x = (if d = 1 then 2 ^ 31 else 0) + c * 2 ^ 23 + r"
    using d unfolding a b by auto
  then show ?thesis
    unfolding dx c_def q_def r_def .
qed

lemma binary32_roundtrip:
  assumes "x < 2 ^ 32" "\<not> is_NaN32 x"
  shows "binary32_of (Number_of_binary32 x) = x \<and> \<not> is_NaN (Number_of_binary32 x)"
proof -
  define s where "s = (x div 2 ^ 31 = 1)"
  define e where "e = x div 2 ^ 23 mod 2 ^ 8"
  define m where "m = x mod 2 ^ 23"
  have x: "x = (if s then 2 ^ 31 else 0) + e * 2 ^ 23 + m"
    unfolding s_def e_def m_def by (rule binary32_parts [OF assms(1)])
  have e: "e < 256" and m: "m < 2 ^ 23"
    by (simp_all add: e_def m_def)
  have NN: "Number_of_binary32 x =
      (if e = 255 then make_number s 2047 (m * 2 ^ 29)
       else if e = 0 then
         (if m = 0 then make_number s 0 0
          else make_number s (874 + (bitlen m - 1))
                 ((m - 2 ^ (bitlen m - 1)) * 2 ^ (52 - (bitlen m - 1))))
       else make_number s (896 + e) (m * 2 ^ 29))"
    unfolding Number_of_binary32_def Let_def s_def e_def m_def by (rule refl)
  consider (special) "e = 255" | (zero) "e = 0" "m = 0" | (subnormal) "e = 0" "m \<noteq> 0"
    | (normal) "0 < e" "e < 255"
    using e by fastforce
  then show ?thesis
  proof cases
    case special
    with assms(2) have m0: "m = 0"
      by (simp add: is_NaN32_def e_def m_def)
    have N: "Number_of_binary32 x = make_number s 2047 0"
      using special m0 by (simp add: NN)
    have f: "expo (make_number s 2047 0) = 2047" "mant (make_number s 2047 0) = 0"
      "sign_bit (make_number s 2047 0) = s"
      by (simp_all add: expo_make_number mant_make_number sign_make_number)
    have "binary32_of (Number_of_binary32 x) = (if s then 2 ^ 31 else 0) + 255 * 2 ^ 23 + 0"
      unfolding N by (simp add: binary32_of_def f)
    with special m0 have "binary32_of (Number_of_binary32 x) = x"
      by (subst (2) x) simp
    moreover have "\<not> is_NaN (Number_of_binary32 x)"
      unfolding N by (simp add: is_NaN_def f)
    ultimately show ?thesis
      by simp
  next
    case zero
    have N: "Number_of_binary32 x = make_number s 0 0"
      using zero by (simp add: NN)
    have f: "expo (make_number s 0 0) = 0" "mant (make_number s 0 0) = 0"
      "sign_bit (make_number s 0 0) = s"
      by (simp_all add: expo_make_number mant_make_number sign_make_number)
    have "binary32_of (Number_of_binary32 x) = (if s then 2 ^ 31 else 0)"
      unfolding N by (simp add: binary32_of_def f round_shift_def)
    with zero have "binary32_of (Number_of_binary32 x) = x"
      by (subst (2) x) simp
    moreover have "\<not> is_NaN (Number_of_binary32 x)"
      unfolding N by (simp add: is_NaN_def f)
    ultimately show ?thesis
      by simp
  next
    case subnormal
    define k where "k = bitlen m - 1"
    from subnormal(2) have mp: "0 < m"
      by simp
    from bitlen_bounds [OF mp] have b: "2 ^ k \<le> m" "m < 2 ^ bitlen m"
      by (simp_all add: k_def)
    from mp have "0 < bitlen m"
      by (subst bitlen.simps) simp
    then have sk: "bitlen m = Suc k"
      by (simp add: k_def)
    from b(1) m have "(2::nat) ^ k < 2 ^ 23"
      by simp
    then have "k < 23"
      by (simp only: power_strict_increasing_iff rel_simps)
    then have k: "k \<le> 52" "k \<le> 22"
      by simp_all
    from b(2) have "m - 2 ^ k < 2 ^ k"
      by (simp add: sk)
    from scaled_less [OF k(1) this] have ml: "(m - 2 ^ k) * 2 ^ (52 - k) < 2 ^ 52" .
    from k have el: "874 + k < 2048"
      by simp
    have N: "Number_of_binary32 x = make_number s (874 + k) ((m - 2 ^ k) * 2 ^ (52 - k))"
      using subnormal by (simp add: NN k_def)
    have f: "expo (Number_of_binary32 x) = 874 + k" "sign_bit (Number_of_binary32 x) = s"
      "mant (Number_of_binary32 x) = (m - 2 ^ k) * 2 ^ (52 - k)"
      unfolding N
      by (rule expo_make_number [OF el ml], rule sign_make_number [OF el ml],
          rule mant_make_number [OF el ml])
    have sig: "2 ^ 52 + mant (Number_of_binary32 x) = m * 2 ^ (52 - k)"
      unfolding f(3) by (rule scaled_significand [OF k(1) b(1)])
    have sh: "29 + (897 - max 1 (874 + k)) = 52 - k"
      using k(2) by simp
    have c: "(874 + k = 0) = False" "(897 \<le> max 1 (874 + k)) = False"
      using k(2) by simp_all
    have rs: "round_shift (2 ^ 52 + mant (Number_of_binary32 x)) (29 + (897 - max 1 (874 + k))) = m"
      by (simp only: sig sh round_shift_exact)
    have c2: "(874 + k = 2047) = False"
      using k(2) by simp
    have B: "binary32_of (Number_of_binary32 x) = (if s then 2 ^ 31 else 0) + min m (255 * 2 ^ 23)"
      by (simp only: binary32_of_def Let_def f(1,2) c c2 if_False rs)
    from m have "min m (255 * 2 ^ 23) = m"
      by simp
    with B subnormal(1) have "binary32_of (Number_of_binary32 x) = x"
      by (subst (2) x) simp
    moreover from k(2) have "\<not> is_NaN (Number_of_binary32 x)"
      by (simp add: is_NaN_def f(1))
    ultimately show ?thesis
      by simp
  next
    case normal
    from m have ml: "m * 2 ^ 29 < 2 ^ 52"
      by simp
    from normal have el: "896 + e < 2048"
      by simp
    have N: "Number_of_binary32 x = make_number s (896 + e) (m * 2 ^ 29)"
      using normal by (simp add: NN)
    have f: "expo (Number_of_binary32 x) = 896 + e" "sign_bit (Number_of_binary32 x) = s"
      "mant (Number_of_binary32 x) = m * 2 ^ 29"
      unfolding N
      by (rule expo_make_number [OF el ml], rule sign_make_number [OF el ml],
          rule mant_make_number [OF el ml])
    have "(2::nat) ^ 52 + m * 2 ^ 29 = (2 ^ 23 + m) * 2 ^ 29"
      by simp
    then have rs: "round_shift (2 ^ 52 + m * 2 ^ 29) 29 = 2 ^ 23 + m"
      by (simp only: round_shift_exact)
    have c: "(896 + e = 0) = False" "(896 + e = 2047) = False" "max 1 (896 + e) = 896 + e"
      "(897 \<le> 896 + e) = True"
      using normal by simp_all
    have B: "binary32_of (Number_of_binary32 x) =
             (if s then 2 ^ 31 else 0) + min ((896 + e - 897) * 2 ^ 23 + (2 ^ 23 + m)) (255 * 2 ^ 23)"
      by (simp only: binary32_of_def Let_def f c if_False if_True rs)
    from normal have "(896 + e - 897) * 2 ^ 23 + (2 ^ 23 + m) = e * 2 ^ 23 + m"
      by (cases e) simp_all
    moreover from normal(2) m have "e * 2 ^ 23 + m < 255 * 2 ^ 23"
      by simp
    ultimately have "min ((896 + e - 897) * 2 ^ 23 + (2 ^ 23 + m)) (255 * 2 ^ 23) = e * 2 ^ 23 + m"
      by simp
    with B have "binary32_of (Number_of_binary32 x) = x"
      by (subst (2) x) simp
    moreover from normal(2) have "\<not> is_NaN (Number_of_binary32 x)"
      by (simp add: is_NaN_def f(1))
    ultimately show ?thesis
      by simp
  qed
qed


lemma read_num_shape:
  "T \<noteq> Int8 \<Longrightarrow>
     read_num T s h =
       (case peek (offset s) (width T) (cells h (buffer s)) of
          None \<Rightarrow> (Inl RangeError, s, h)
        | Some bs \<Rightarrow> (Inr (decode T (isLittleEndian s) bs), snd (increment (width T) s), h))"
  by (cases T)
    (simp_all add: readUint8_def readUint16_def readInt16_def readUint32_def readInt32_def
      readFloat_def readDouble_def getUint8_def getUint16_def getInt16_def getUint32_def
      getInt32_def getFloat32_def getFloat64_def split: option.splits)

lemma unsigned_roundtrip:
  assumes "0 \<le> i" "i < 2 ^ (8 * w)" "8 * w \<le> 32"
  shows "Number_of_int (int (le_nat (le_bytes w (ToUint (8 * w) (Number_of_int i))))) = Number_of_int i"
proof -
  have "(2::int) ^ (8 * w) \<le> 2 ^ 32"
    using assms(3) by (simp only: power_increasing_iff rel_simps)
  with assms(1,2) have "\<bar>i\<bar> < 2 ^ 53"
    by simp
  then have "ToUint (8 * w) (Number_of_int i) = nat (i mod 2 ^ (8 * w))"
    by (simp add: ToUint_def ToIntegral_Number_of_int)
  with assms(1,2) have u: "ToUint (8 * w) (Number_of_int i) = nat i"
    by simp
  have p: "(256::nat) ^ w = 2 ^ (8 * w)"
    by (simp add: power_mult)
  from assms(1,2) have "nat i < 2 ^ (8 * w)"
    by (simp add: nat_less_iff)
  then have "le_nat (le_bytes w (nat i)) = nat i"
    by (simp add: le_nat_le_bytes p)
  with assms(1) show ?thesis
    by (simp add: u)
qed

lemma signed_roundtrip:
  assumes "- (2 ^ (8 * w - 1)) \<le> i" "i < 2 ^ (8 * w - 1)" "8 * w \<le> 32" "0 < w"
  shows "Number_of_int (twos_complement (8 * w)
           (le_nat (le_bytes w (ToUint (8 * w) (Number_of_int i))))) = Number_of_int i"
proof -
  have h: "(2::int) ^ (8 * w) = 2 * 2 ^ (8 * w - 1)"
    using assms(4) by (cases "8 * w") simp_all
  have "(2::int) ^ (8 * w) \<le> 2 ^ 32"
    using assms(3) by (simp only: power_increasing_iff rel_simps)
  with assms(1,2) h have "\<bar>i\<bar> < 2 ^ 53"
    by simp
  then have u: "ToUint (8 * w) (Number_of_int i) = nat (i mod 2 ^ (8 * w))"
    by (simp add: ToUint_def ToIntegral_Number_of_int)
  have p: "(256::nat) ^ w = 2 ^ (8 * w)"
    by (simp add: power_mult)
  have "nat (i mod 2 ^ (8 * w)) < 2 ^ (8 * w)"
    by (simp add: nat_less_iff)
  then have l: "le_nat (le_bytes w (nat (i mod 2 ^ (8 * w)))) = nat (i mod 2 ^ (8 * w))"
    by (simp add: le_nat_le_bytes p)
  have "twos_complement (8 * w) (nat (i mod 2 ^ (8 * w))) = i"
  proof (cases "0 \<le> i")
    case True
    with assms(2) h have "i mod 2 ^ (8 * w) = i"
      by simp
    with True assms(2) show ?thesis
      by (simp add: twos_complement_def nat_le_iff)
  next
    case False
    with assms(1) h have "(i + 2 ^ (8 * w)) mod 2 ^ (8 * w) = i + 2 ^ (8 * w)"
      by (intro mod_pos_pos_trivial) simp_all
    then have "i mod 2 ^ (8 * w) = i + 2 ^ (8 * w)"
      by simp
    with False assms(1) h show ?thesis
      by (simp add: twos_complement_def le_nat_iff)
  qed
  then show ?thesis
    by (simp add: u l)
qed


lemma double_roundtrip: "word_of_nat (le_nat (le_bytes 8 (unat (v :: number)))) = v"
proof -
  have "unat v < 2 ^ LENGTH(64)"
    by (rule unsigned_less)
  then have "unat v mod 256 ^ 8 = unat v"
    by simp
  then have "le_nat (le_bytes 8 (unat v)) = unat v"
    by (simp only: le_nat_le_bytes)
  then show ?thesis
    by simp
qed

lemma float_roundtrip:
  assumes "x < 2 ^ 32" "\<not> is_NaN32 x"
  shows "Number_of_binary32 (le_nat (le_bytes 4 (binary32_of (Number_of_binary32 x)))) =
         Number_of_binary32 x"
proof -
  from assms(1) have "x mod 256 ^ 4 = x"
    by simp
  with binary32_roundtrip [OF assms] show ?thesis
    by (simp only: le_nat_le_bytes)
qed

lemma decode_encode:
  assumes "typed_value T v"
  shows "decode T le (encode T le v) = v"
proof (cases T)
  case Uint8
  with assms unsigned_roundtrip [of _ 1] show ?thesis
    by (auto simp add: encode_def)
next
  case Int8
  with assms signed_roundtrip [of 1] show ?thesis
    by (auto simp add: encode_def)
next
  case Uint16
  with assms unsigned_roundtrip [of _ 2] show ?thesis
    by (auto simp add: encode_def)
next
  case Int16
  with assms signed_roundtrip [of 2] show ?thesis
    by (auto simp add: encode_def)
next
  case Uint32
  with assms unsigned_roundtrip [of _ 4] show ?thesis
    by (auto simp add: encode_def)
next
  case Int32
  with assms signed_roundtrip [of 4] show ?thesis
    by (auto simp add: encode_def)
next
  case Float
  with assms float_roundtrip show ?thesis
    by (auto simp add: encode_def)
next
  case Double
  with double_roundtrip show ?thesis
    by (simp add: encode_def)
qed

lemma typed_value_not_NaN:
  assumes "typed_value T v"
  shows "\<not> is_NaN v"
proof (cases T)
  case Float
  with assms binary32_roundtrip show ?thesis
    by auto
next
  case Double
  with assms show ?thesis
    by simp
qed (use assms in \<open>auto intro!: Number_of_int_not_NaN\<close>)

section \<open>Facts about \<open>writeTwoUint16s\<close>\<close>

lemma ToUint_less: "ToUint bits w < 2 ^ bits"
  by (simp add: ToUint_def nat_less_iff)

lemma high_half:
  fixes u :: int
  assumes "0 \<le> u" "u < 65536 * 65536"
  shows "((u - 65536 * 65536) div 65536) mod 65536 = u div 65536"
    and "(u div 65536) mod 65536 = u div 65536"
proof -
  have a: "(u - 65536 * 65536) div 65536 = u div 65536 - 65536"
    by linarith
  have b: "0 \<le> u div 65536" "u div 65536 < 65536"
    using assms by linarith+
  show "(u div 65536) mod 65536 = u div 65536"
    using b by simp
  have "(u div 65536 - 65536) mod 65536 = (u div 65536) mod 65536"
    by (metis mod_diff_right_eq mod_self diff_zero)
  with a b show "((u - 65536 * 65536) div 65536) mod 65536 = u div 65536"
    by simp
qed

lemma low_half:
  fixes u :: int
  shows "(u - 65536 * 65536) mod 65536 = u mod 65536"
  by (metis mod_diff_right_eq mod_mult_self1_is_0 diff_zero)

lemma ToInt32_cases:
  "ToInt32 w = int (ToUint 32 w) \<or> ToInt32 w = int (ToUint 32 w) - 65536 * 65536"
  by (simp add: ToInt32_def twos_complement_def)

lemma ToUint32_range: "0 \<le> int (ToUint 32 w)" "int (ToUint 32 w) < 65536 * 65536"
  using ToUint_less [of 32 w] by simp_all

lemma ToInt32_high: "nat ((ToInt32 w div 65536) mod 65536) = ToUint 32 w div 65536"
proof -
  have "(ToInt32 w div 65536) mod 65536 = int (ToUint 32 w) div 65536"
    using ToInt32_cases [of w] high_half [OF ToUint32_range [of w]] by auto
  then show ?thesis
    by (simp add: zdiv_int [symmetric])
qed

lemma ToInt32_low: "nat (ToInt32 w mod 65536) = ToUint 32 w mod 65536"
proof -
  have "ToInt32 w mod 65536 = int (ToUint 32 w) mod 65536"
    using ToInt32_cases [of w] low_half [of "int (ToUint 32 w)"] by auto
  then show ?thesis
    by (simp add: nat_mod_distrib)
qed

lemma ToInt32_halves_small:
  "\<bar>ToInt32 w div 65536\<bar> < 2 ^ 53" "\<bar>ToInt32 w mod 65536\<bar> < 2 ^ 53"
proof -
  have "- (65536 * 65536) \<le> ToInt32 w" "ToInt32 w < 65536 * 65536"
    using ToInt32_cases [of w] ToUint32_range [of w] by auto
  then have "- 65536 \<le> ToInt32 w div 65536" "ToInt32 w div 65536 < 65536"
    by linarith+
  then show "\<bar>ToInt32 w div 65536\<bar> < 2 ^ 53"
    by simp
  have "0 \<le> ToInt32 w mod 65536" "ToInt32 w mod 65536 < 65536"
    by simp_all
  then show "\<bar>ToInt32 w mod 65536\<bar> < 2 ^ 53"
    by simp
qed

lemma toInt_first:
  "toInt (JNumber (Number_of_int (ToInt32 w div 65536))) =
     Inr (JNumber (Number_of_int (ToInt32 w div 65536)))"
  by (rule toInt_number, rule Number_of_int_not_NaN, rule ToInt32_halves_small)

lemma toInt_second:
  "toInt (JNumber (Number_of_int (ToInt32 w mod 65536))) =
     Inr (JNumber (Number_of_int (ToInt32 w mod 65536)))"
  by (rule toInt_number, rule Number_of_int_not_NaN, rule ToInt32_halves_small)

lemma ToUint16_first:
  "ToUint 16 (Number_of_int (ToInt32 w div 65536)) = ToUint 32 w div 65536"
  using ToInt32_high [of w]
  by (simp add: ToUint_def ToIntegral_Number_of_int [OF ToInt32_halves_small(1)])

lemma ToUint16_second:
  "ToUint 16 (Number_of_int (ToInt32 w mod 65536)) = ToUint 32 w mod 65536"
  using ToInt32_low [of w]
  by (simp add: ToUint_def ToIntegral_Number_of_int [OF ToInt32_halves_small(2)])

lemma poke_twice:
  assumes "off + 4 \<le> length buf" "length X = 2" "length Y = 2"
  shows "poke off X buf = Some (take off buf @ X @ drop (off + 2) buf)"
    and "poke (off + 2) Y (take off buf @ X @ drop (off + 2) buf) =
           Some (take off buf @ X @ Y @ drop (off + 4) buf)"
proof -
  define front where "front = take off buf @ X"
  define rear where "rear = drop (off + 2) buf"
  have f: "length front = off + 2"
    using assms by (simp add: front_def)
  have b: "2 \<le> length rear"
    using assms by (simp add: rear_def)
  have d: "drop 2 rear = drop (off + 4) buf"
  proof -
    have "2 + (off + 2) = off + 4"
      by simp
    then show ?thesis
      unfolding rear_def drop_drop by (rule arg_cong)
  qed
  show "poke off X buf = Some (take off buf @ X @ drop (off + 2) buf)"
    using assms by (simp add: poke_def)
  have "poke (off + 2) Y (front @ rear) = Some (front @ Y @ drop 2 rear)"
    using f b assms(3) by (simp add: poke_def)
  then show "poke (off + 2) Y (take off buf @ X @ drop (off + 2) buf) =
           Some (take off buf @ X @ Y @ drop (off + 4) buf)"
    unfolding d by (simp add: front_def rear_def)
qed

lemma writeTwoUint16s_keep:
  assumes "offset s + 4 \<le> byteLength h (buffer s)"
  shows "writeTwoUint16s val s h =
     (Inr 4, s\<lparr>offset := offset s + 4, size_bs := max (size_bs s) (offset s + 4)\<rparr>,
      put (buffer s)
        (take (offset s) (cells h (buffer s)) @
         ordered (isLittleEndian s) (le_bytes 2 (ToUint 32 (ToNumber val) div 65536)) @
         ordered (isLittleEndian s) (le_bytes 2 (ToUint 32 (ToNumber val) mod 65536)) @
         drop (offset s + 4) (cells h (buffer s))) h)"
proof -
  have l: "offset s + 4 \<le> length (cells h (buffer s))"
    using assms by (simp add: byteLength_def)
  note p = poke_twice [OF l, of "ordered (isLittleEndian s) (le_bytes 2 (ToUint 32 (ToNumber val) div 65536))"
      "ordered (isLittleEndian s) (le_bytes 2 (ToUint 32 (ToNumber val) mod 65536))", simplified]
  show ?thesis
    using assms
    by (simp add: writeTwoUint16s_def checkSize_keep toInt_first toInt_second setUint16_def
        ToUint16_first ToUint16_second p increment_eq put_def Let_def)
qed

lemma checkSize_allocated:
  assumes "allocated h (buffer s)" "checkSize step s h = (r, s', h')"
  shows "allocated h' (buffer s')"
proof (cases "byteLength h (buffer s) < offset s + step")
  case True
  from assms(2) show ?thesis
    unfolding checkSize_grow [OF assms(1) True] by (auto simp add: allocated_def)
next
  case False
  with assms show ?thesis
    by (simp add: checkSize_keep)
qed

lemma writeTwoUint16s_after_checkSize:
  assumes "checkSize 4 s h = (Inr (), s1, h1)" "offset s1 + 4 \<le> byteLength h1 (buffer s1)"
  shows "writeTwoUint16s val s h = writeTwoUint16s val s1 h1"
  by (simp add: writeTwoUint16s_def assms checkSize_keep)

text \<open>
  \<open>writeTwoUint16s\<close> obeys the same contract with width 4, for every value: the
  operators have made numbers of the two halves before \<open>toInt\<close> sees them, so it never
  raises. The two halves of \<open>ToUint32\<close> of the value are written one after the other,
  high half first, each in the byte order of the cursor.
\<close>

lemma writeTwoUint16s_ok:
  assumes "allocated h (buffer s)"
  shows "\<exists>s' h'. writeTwoUint16s val s h = (Inr 4, s', h') \<and>
           byteLength h' (buffer s') = max (byteLength h (buffer s)) (offset s + 4) \<and>
           take 4 (drop (offset s) (cells h' (buffer s'))) =
             ordered (isLittleEndian s) (le_bytes 2 (ToUint 32 (ToNumber val) div 65536)) @
             ordered (isLittleEndian s) (le_bytes 2 (ToUint 32 (ToNumber val) mod 65536)) \<and>
           offset s' = offset s + 4 \<and>
           size_bs s' = max (size_bs s) (offset s') \<and>
           isLittleEndian s' = isLittleEndian s \<and>
           allocated h' (buffer s')"
proof -
  from checkSize_ok [OF assms, of 4] obtain s1 h1 where
    c: "checkSize 4 s h = (Inr (), s1, h1)" and
    o: "offset s1 = offset s" "size_bs s1 = size_bs s" "isLittleEndian s1 = isLittleEndian s" and
    l: "byteLength h1 (buffer s1) = max (byteLength h (buffer s)) (offset s + 4)"
    by blast
  have k: "offset s1 + 4 \<le> byteLength h1 (buffer s1)"
    by (simp add: o l)
  have a: "allocated h1 (buffer s1)"
    by (rule checkSize_allocated [OF assms c])
  have len: "offset s \<le> length (cells h1 (buffer s1))"
    using k by (simp add: o byteLength_def)
  show ?thesis
    unfolding writeTwoUint16s_after_checkSize [OF c k] writeTwoUint16s_keep [OF k]
    using a l k len
    by (simp add: o put_def byteLength_def allocated_def)
qed


section \<open>Reading 16-bit arrays (C8)\<close>

text \<open>
  C8. \<open>readUint16Array(n)\<close> is specified to return the \<open>n / 2\<close> 16-bit values of the
  bytes from \<open>offset\<close> on, in order, and to advance the offset by \<open>n\<close>. The loop
  increments \<open>i\<close> in its test, before the body stores at \<open>arr[i]\<close>, so the code does not
  return them: over the big-endian bytes \<open>00 01 00 02\<close>, \<open>readUint16Array(4)\<close> returns
  \<open>[0, 1]\<close>, not \<open>[1, 2]\<close>. The first element is never stored, each value lands one
  place late and the last value read is dropped. The offset does advance by 4.
\<close>

theorem readUint16Array_shifted:
  "(let (b, h1) = new_ArrayBuffer [0, 1, 0, 2] empty_heap;
        (s, h2) = ReadBufferStream_new (ArgBuffer b) None h1;
        (r, s', h') = readUint16Array 4 s h2
    in r = Inr [0, 1] \<and> r \<noteq> Inr [1, 2] \<and> offset s' = 4)"
  by (simp add: stream_defs readUint16Array_def readUint16Array_loop.simps getUint16_def
      peek_def ordered_def number_defs replicate_numeral_eq list_update_code)

section \<open>Reading hexadecimal (C7)\<close>

text \<open>
  C7. \<open>readHex(n)\<close> is specified to render each of the next \<open>n\<close> bytes as two lowercase
  hexadecimal digits. \<open>toString(16)\<close> does not pad: the byte \<open>0x0A\<close> is read as
  \<open>"a"\<close>, one character, where \<open>writeHex\<close> takes two digits for a byte. The offset does
  advance by the number of bytes, and \<open>"1a2b"\<close>, written as hexadecimal and read back as
  2 bytes, does come back as \<open>"1a2b"\<close> (both bytes are above 15).
\<close>

theorem readHex_does_not_pad:
  "(let (b, h1) = new_ArrayBuffer [0x0A] empty_heap;
        (s, h2) = ReadBufferStream_new (ArgBuffer b) None h1;
        (r, s', h') = readHex 1 s h2
    in r = Inr ''a'' \<and> r \<noteq> Inr ''0a'' \<and> offset s' = 1) \<and>
   (let (s, h1) = WriteBufferStream_new ArgAbsent None empty_heap;
        (r1, s1, h2) = writeHex ''1a2b'' s h1;
        (r2, s2, h3) = readHex 2 (reset s1) h2
    in r1 = Inr 2 \<and> r2 = Inr ''1a2b'' \<and> offset s2 = 2)"
  by (simp add: stream_defs readHex_def readUint8_def getUint8_def peek_def number_defs
      toString16_def toString16_nat_digit toString16_nat_two hexChar_def
      writeHex_def checkSize_def poke_def setUint8_def hexCode_def hexDigit_def
      replicate_numeral_eq readHex_loop_numeral Let_def)

section \<open>Snapshots of the buffer (C9)\<close>

text \<open>
  C9. \<open>getBuffer(start, end)\<close> is specified to return, for all bounds
  \<open>0 \<le> start \<le> end \<le> capacity\<close>, a copy of the region from \<open>start\<close> to \<open>end\<close>, and
  the region up to \<open>size\<close> when called with no arguments. The test \<open>!start && !end\<close>,
  meant for the call with no arguments, also holds of the bounds \<open>(0, 0)\<close>: on a cursor
  of size 2 over the bytes \<open>01 02\<close>, \<open>getBuffer(0, 0)\<close> returns both bytes, not the
  empty region.
\<close>

theorem getBuffer_zero_bounds:
  "(let (b, h1) = new_ArrayBuffer [1, 2] empty_heap;
        (s, h2) = ReadBufferStream_new (ArgBuffer b) None h1;
        (c, h3) = getBuffer (Some 0) (Some 0) s h2
    in size_bs s = 2 \<and> cells h3 c = [1, 2] \<and> cells h3 c \<noteq> [])"
  by (simp add: stream_defs getBuffer_def falsy_def slice_def Let_def)

text \<open>
  For all other bounds within the capacity, and with no arguments, \<open>getBuffer\<close> returns
  the region in a new buffer, and changes neither the cursor nor any other buffer.
\<close>

lemma getBuffer_region:
  assumes "start \<le> end" "end \<le> byteLength h (buffer s)" "0 < end"
  shows "getBuffer (Some start) (Some end) s h =
           (fresh h,
            \<lparr>cells = (cells h)(fresh h := take (end - start) (drop start (cells h (buffer s)))),
             fresh = Suc (fresh h)\<rparr>)"
proof -
  from assms(1,2) have "slice start (start + (end - start)) (cells h (buffer s)) =
      take (end - start) (drop start (cells h (buffer s)))"
    by (intro slice_within) (simp add: byteLength_def)
  with assms(1,3) show ?thesis
    by (simp add: getBuffer_bounds)
qed

lemma getBuffer_no_arguments:
  assumes "size_bs s \<le> byteLength h (buffer s)"
  shows "getBuffer None None s h =
           (fresh h,
            \<lparr>cells = (cells h)(fresh h := take (size_bs s) (cells h (buffer s))),
             fresh = Suc (fresh h)\<rparr>)"
  using assms
  by (simp add: getBuffer_def falsy_def new_ArrayBuffer_def slice_front byteLength_def)

section \<open>The contract of the numeric writers (C2)\<close>

text \<open>
  C2, as the code has it. Each of the eight numeric writers (\<open>writeUint8\<close>,
  \<open>writeInt8\<close>, \<open>writeUint16\<close>, \<open>writeInt16\<close>, \<open>writeUint32\<close>, \<open>writeInt32\<close>,
  \<open>writeFloat\<close>, \<open>writeDouble\<close>), given a number other than \<open>NaN\<close>, returns the
  width; afterwards the capacity is the larger of the old capacity and
  \<open>offset + width\<close>, the \<open>width\<close> bytes from the old offset on are the bytes of the
  bit pattern of the value, least significant byte first on a little-endian cursor and
  most significant byte first on a big-endian one, the offset has advanced by the width
  and the size is the larger of the old size and the new offset.
\<close>

theorem numeric_write_contract:
  assumes "allocated h (buffer s)" and "\<not> is_NaN x"
  shows "\<exists>s' h'. write_num T (JNumber x) s h = (Inr (width T), s', h') \<and>
           byteLength h' (buffer s') = max (byteLength h (buffer s)) (offset s + width T) \<and>
           take (width T) (drop (offset s) (cells h' (buffer s'))) =
             (if isLittleEndian s then le_bytes (width T) (raw_bits T x)
              else rev (le_bytes (width T) (raw_bits T x))) \<and>
           offset s' = offset s + width T \<and>
           size_bs s' = max (size_bs s) (offset s') \<and>
           isLittleEndian s' = isLittleEndian s \<and>
           allocated h' (buffer s')"
proof -
  have e: "encode T (isLittleEndian s) x =
             (if isLittleEndian s then le_bytes (width T) (raw_bits T x)
              else rev (le_bytes (width T) (raw_bits T x)))"
    by (simp add: encode_def ordered_def)
  from write_with_ok [OF assms(1), of "\<lambda>v le. encode T le (ToNumber v)" "JNumber x" "width T"]
    assms(2)
  show ?thesis
    unfolding e [symmetric] by (simp add: write_num_shape toInt_number toFloat_number)
qed

theorem numeric_write_contract_witness:
  "allocated (snd fresh_writer) (buffer (fst fresh_writer)) \<and>
   \<not> is_NaN (Number_of_int 4660) \<and>
   (\<exists>s' h'.
      write_num Uint16 (JNumber (Number_of_int 4660)) (fst fresh_writer) (snd fresh_writer) =
        (Inr 2, s', h') \<and>
      byteLength h' (buffer s') = 2 \<and> cells h' (buffer s') = [0x12, 0x34] \<and>
      offset s' = 2 \<and> size_bs s' = 2) \<and>
   (\<exists>s' h'.
      write_num Uint16 (JNumber (Number_of_int 4660)) (setEndian True (fst fresh_writer))
        (snd fresh_writer) = (Inr 2, s', h') \<and>
      byteLength h' (buffer s') = 2 \<and> cells h' (buffer s') = [0x34, 0x12] \<and>
      offset s' = 2 \<and> size_bs s' = 2)"
proof -
  have a: "allocated (snd fresh_writer) (buffer (fst fresh_writer))"
    by (simp add: fresh_writer_def stream_defs)
  have a': "allocated (snd fresh_writer) (buffer (setEndian True (fst fresh_writer)))"
    by (simp add: fresh_writer_def stream_defs setEndian_def)
  have n: "\<not> is_NaN (Number_of_int 4660)"
    by (simp add: number_defs)
  have e: "le_bytes 2 (ToUint 16 (Number_of_int 4660)) = [0x34, 0x12]"
    by (simp add: le_bytes_numeral number_defs)
  have z: "cells (snd fresh_writer) (buffer (fst fresh_writer)) = []"
    "offset (fst fresh_writer) = 0" "size_bs (fst fresh_writer) = 0"
    "isLittleEndian (fst fresh_writer) = False"
    by (simp_all add: fresh_writer_def stream_defs)
  have z': "cells (snd fresh_writer) (buffer (setEndian True (fst fresh_writer))) = []"
    "offset (setEndian True (fst fresh_writer)) = 0"
    "size_bs (setEndian True (fst fresh_writer)) = 0"
    "isLittleEndian (setEndian True (fst fresh_writer)) = True"
    by (simp_all add: fresh_writer_def stream_defs setEndian_def)
  from numeric_write_contract [OF a n, of Uint16]
  obtain s1 h1 where w:
    "write_num Uint16 (JNumber (Number_of_int 4660)) (fst fresh_writer) (snd fresh_writer) =
       (Inr 2, s1, h1)"
    "length (cells h1 (buffer s1)) = 2" "take 2 (cells h1 (buffer s1)) = [0x12, 0x34]"
    "offset s1 = 2" "size_bs s1 = 2"
    by (auto simp add: e z byteLength_def)
  from w(2,3) have b: "cells h1 (buffer s1) = [0x12, 0x34]"
    by simp
  from numeric_write_contract [OF a' n, of Uint16]
  obtain s2 h2 where v:
    "write_num Uint16 (JNumber (Number_of_int 4660)) (setEndian True (fst fresh_writer))
       (snd fresh_writer) = (Inr 2, s2, h2)"
    "length (cells h2 (buffer s2)) = 2" "take 2 (cells h2 (buffer s2)) = [0x34, 0x12]"
    "offset s2 = 2" "size_bs s2 = 2"
    by (auto simp add: e z' byteLength_def)
  from v(2,3) have l: "cells h2 (buffer s2) = [0x34, 0x12]"
    by simp
  from w b v l a n show ?thesis
    by (simp add: byteLength_def)
qed

text \<open>
  C2 as stated fails: \<open>NaN\<close> is a number, a value of both floating types, and no
  writer encodes it. \<open>isNaN(NaN)\<close> is true, so \<open>toFloat\<close> and \<open>toInt\<close> raise "Not a
  number": \<open>writeDouble(NaN)\<close> and \<open>writeUint8(NaN)\<close> on a new Write cursor return
  nothing and leave offset and size at 0.
\<close>

theorem NaN_is_rejected:
  "is_NaN NaN \<and>
   (case write_num Double (JNumber NaN) (fst fresh_writer) (snd fresh_writer) of
      (r, s', h') \<Rightarrow>
        r = Inl (NotANumber (JNumber NaN)) \<and> r \<noteq> Inr 8 \<and> offset s' = 0 \<and> size_bs s' = 0) \<and>
   (case write_num Uint8 (JNumber NaN) (fst fresh_writer) (snd fresh_writer) of
      (r, s', h') \<Rightarrow>
        r = Inl (NotANumber (JNumber NaN)) \<and> r \<noteq> Inr 1 \<and> offset s' = 0 \<and> size_bs s' = 0)"
proof -
  have n: "is_NaN NaN"
    by (simp add: number_defs)
  then have i: "isNaN (JNumber NaN)"
    by (simp add: isNaN_def)
  show ?thesis
    using n
    by (simp add: fresh_writer_def stream_defs writeDouble_def writeUint8_def checkSize_def
        toFloat_def toInt_def i poke_def Let_def)
qed


section \<open>Coercion of the value to write (C5)\<close>

text \<open>
  C5, as the code has it. For each of the eight numeric writers: a value whose numeric
  conversion is not \<open>NaN\<close> is accepted, and what is encoded at the old offset is the
  value itself for a number, \<open>parseInt\<close> of a string for the integer writers and
  \<open>parseFloat\<close> of it for the float writers, and the numeric conversion of \<open>null\<close> or
  a boolean; a value whose numeric conversion is \<open>NaN\<close> (\<open>NaN\<close>, \<open>undefined\<close>, a string
  that is no numeric literal) makes the writer fail with the error "Not a number",
  with offset, size, byte order and the bytes of the old buffer as they were. The
  capacity is checked before the value: a failing write has still grown the buffer to
  \<open>offset + width\<close> when it was smaller, and has changed nothing otherwise.
\<close>

theorem numeric_coercion:
  assumes "allocated h (buffer s)"
  shows "(\<not> isNaN val \<longrightarrow>
            (\<exists>s' h'. write_num T val s h = (Inr (width T), s', h') \<and>
               take (width T) (drop (offset s) (cells h' (buffer s'))) =
                 encode T (isLittleEndian s) (coerced T val))) \<and>
         (isNaN val \<longrightarrow>
            (\<exists>s' h'. write_num T val s h = (Inl (NotANumber val), s', h') \<and>
               offset s' = offset s \<and> size_bs s' = size_bs s \<and>
               isLittleEndian s' = isLittleEndian s \<and>
               byteLength h' (buffer s') = max (byteLength h (buffer s)) (offset s + width T) \<and>
               take (byteLength h (buffer s)) (cells h' (buffer s')) = cells h (buffer s) \<and>
               (offset s + width T \<le> byteLength h (buffer s) \<longrightarrow> s' = s \<and> h' = h)))"
proof (intro conjI impI)
  assume ok: "\<not> isNaN val"
  from coercion_accepts [OF ok, of T] obtain v where
    v: "(if T = Float \<or> T = Double then toFloat val else toInt val) = Inr v"
       "ToNumber v = coerced T val"
    by blast
  from write_with_ok [OF assms, of "\<lambda>v le. encode T le (ToNumber v)" v "width T"]
  show "\<exists>s' h'. write_num T val s h = (Inr (width T), s', h') \<and>
               take (width T) (drop (offset s) (cells h' (buffer s'))) =
                 encode T (isLittleEndian s) (coerced T val)"
    unfolding write_num_shape v(1) by (auto simp add: v(2))
next
  assume nan: "isNaN val"
  from checkSize_ok [OF assms, of "width T"]
  show "\<exists>s' h'. write_num T val s h = (Inl (NotANumber val), s', h') \<and>
               offset s' = offset s \<and> size_bs s' = size_bs s \<and>
               isLittleEndian s' = isLittleEndian s \<and>
               byteLength h' (buffer s') = max (byteLength h (buffer s)) (offset s + width T) \<and>
               take (byteLength h (buffer s)) (cells h' (buffer s')) = cells h (buffer s) \<and>
               (offset s + width T \<le> byteLength h (buffer s) \<longrightarrow> s' = s \<and> h' = h)"
    unfolding write_num_shape coercion_rejects [OF nan] write_with_fail by auto
qed

theorem numeric_coercion_witness:
  "allocated (snd fresh_writer) (buffer (fst fresh_writer)) \<and>
   \<not> isNaN (JString ''42'' (Number_of_int 42) (Number_of_int 42) (Number_of_int 42)) \<and>
   (\<exists>s' h'.
      write_num Uint8 (JString ''42'' (Number_of_int 42) (Number_of_int 42) (Number_of_int 42))
        (fst fresh_writer) (snd fresh_writer) = (Inr 1, s', h') \<and>
      take 1 (cells h' (buffer s')) = [42]) \<and>
   isNaN JUndefined \<and>
   (\<exists>s' h'.
      write_num Uint8 JUndefined (fst fresh_writer) (snd fresh_writer) =
        (Inl (NotANumber JUndefined), s', h') \<and>
      offset s' = 0 \<and> size_bs s' = 0 \<and> byteLength h' (buffer s') = 1)"
proof -
  have a: "allocated (snd fresh_writer) (buffer (fst fresh_writer))"
    by (simp add: fresh_writer_def stream_defs)
  have z: "cells (snd fresh_writer) (buffer (fst fresh_writer)) = []"
    "offset (fst fresh_writer) = 0" "size_bs (fst fresh_writer) = 0"
    "isLittleEndian (fst fresh_writer) = False"
    by (simp_all add: fresh_writer_def stream_defs)
  have n1: "\<not> isNaN (JString ''42'' (Number_of_int 42) (Number_of_int 42) (Number_of_int 42))"
    by (simp add: isNaN_def number_defs)
  have n2: "isNaN JUndefined"
    by (simp add: isNaN_def number_defs)
  have e: "encode Uint8 False
             (coerced Uint8 (JString ''42'' (Number_of_int 42) (Number_of_int 42) (Number_of_int 42))) =
           [42]"
    by (simp add: encode_def coerced_def number_defs)
  from numeric_coercion [OF a, of "JString ''42'' (Number_of_int 42) (Number_of_int 42) (Number_of_int 42)" Uint8] n1
  have w1: "\<exists>s' h'.
      write_num Uint8 (JString ''42'' (Number_of_int 42) (Number_of_int 42) (Number_of_int 42))
        (fst fresh_writer) (snd fresh_writer) = (Inr 1, s', h') \<and>
      take 1 (cells h' (buffer s')) = [42]"
    by (simp add: z e)
  from numeric_coercion [OF a, of JUndefined Uint8] n2
  have w2: "\<exists>s' h'.
      write_num Uint8 JUndefined (fst fresh_writer) (snd fresh_writer) =
        (Inl (NotANumber JUndefined), s', h') \<and>
      offset s' = 0 \<and> size_bs s' = 0 \<and> byteLength h' (buffer s') = 1"
    by (auto simp add: z byteLength_def)
  from a n1 w1 n2 w2 show ?thesis
    by blast
qed

text \<open>
  C5 as stated fails: \<open>null\<close> is neither a number nor a numeric string, and
  \<open>writeUint8(null)\<close> on a new Write cursor does not fail. \<open>isNaN(null)\<close> is false, so
  \<open>toInt\<close> returns \<open>null\<close>, the setter stores the byte 0 and the call returns 1.
\<close>

theorem null_is_written:
  "(case write_num Uint8 JNull (fst fresh_writer) (snd fresh_writer) of
      (r, s', h') \<Rightarrow>
        r = Inr 1 \<and> r \<noteq> Inl (NotANumber JNull) \<and> offset s' = 1 \<and>
        cells h' (buffer s') = [0])"
  by (simp add: fresh_writer_def stream_defs writeUint8_def checkSize_def toInt_def isNaN_def
      setUint8_def poke_def number_defs Let_def)


section \<open>Growth keeps the bytes (C3)\<close>

text \<open>
  C3. When a numeric write reallocates (the capacity is below \<open>offset + width\<close>), the
  cursor gets a new buffer of exactly \<open>offset + width\<close> bytes in which every byte of
  the old buffer below the write position is at its old index; the reallocation
  itself, \<open>checkSize\<close>, copies the whole old buffer to the front of the new one. In
  particular: on a Write cursor of capacity 0, \<open>writeUint8(0xAA)\<close>, then
  \<open>writeUint8(0xBB)\<close> at offset 1, then reading two bytes from offset 0 gives
  \<open>[0xAA, 0xBB]\<close>.
\<close>

theorem growth_preserves_bytes:
  "(\<forall>T val (s::BufferStream) h r s' h' i.
      allocated h (buffer s) \<and> byteLength h (buffer s) < offset s + width T \<and>
      write_num T val s h = (r, s', h') \<and> i < offset s \<and> i < byteLength h (buffer s) \<longrightarrow>
      buffer s' \<noteq> buffer s \<and> byteLength h' (buffer s') = offset s + width T \<and>
      cells h' (buffer s') ! i = cells h (buffer s) ! i) \<and>
   (\<forall>step (s::BufferStream) h.
      allocated h (buffer s) \<and> byteLength h (buffer s) < offset s + step \<longrightarrow>
      (\<exists>s' h'. checkSize step s h = (Inr (), s', h') \<and>
         byteLength h' (buffer s') = offset s + step \<and>
         take (byteLength h (buffer s)) (cells h' (buffer s')) = cells h (buffer s))) \<and>
   (let (s0, h0) = fresh_writer;
        (r1, s1, h1) = writeUint8 (JNumber (Number_of_int 0xAA)) s0 h0;
        (r2, s2, h2) = writeUint8 (JNumber (Number_of_int 0xBB)) s1 h1;
        (r3, s3, h3) = readUint8Array 2 (reset s2) h2
    in byteLength h0 (buffer s0) = 0 \<and> offset s0 = 0 \<and> r1 = Inr 1 \<and> offset s1 = 1 \<and>
       r2 = Inr 1 \<and> map_sum id (elements h3) r3 = Inr [0xAA, 0xBB])"
proof (intro conjI allI impI)
  fix T val and s :: BufferStream and h r s' h' i
  assume a: "allocated h (buffer s) \<and> byteLength h (buffer s) < offset s + width T \<and>
      write_num T val s h = (r, s', h') \<and> i < offset s \<and> i < byteLength h (buffer s)"
  then have w: "write_with (width T) (if T = Float \<or> T = Double then toFloat val else toInt val)
       (\<lambda>v le. encode T le (ToNumber v)) s h = (r, s', h')"
    by (simp add: write_num_shape)
  from a w show "cells h' (buffer s') ! i = cells h (buffer s) ! i"
    by (intro write_with_below [of h s "\<lambda>v le. encode T le (ToNumber v)" "width T" _ r s' h' i])
      simp_all
  from a have g: "checkSize (width T) s h =
           (Inr (), s\<lparr>buffer := fresh h\<rparr>,
            \<lparr>cells = (cells h)(fresh h :=
                 cells h (buffer s) @ replicate (offset s + width T - byteLength h (buffer s)) 0),
             fresh = Suc (fresh h)\<rparr>)"
    by (simp add: checkSize_grow)
  from a have ne: "fresh h \<noteq> buffer s"
    by (auto simp add: allocated_def)
  from w ne show "buffer s' \<noteq> buffer s"
    by (auto simp add: write_with_def g poke_def increment_eq put_def split: sum.splits if_splits)
  from w a show "byteLength h' (buffer s') = offset s + width T"
    by (auto simp add: write_with_def g poke_def increment_eq put_def byteLength_def
        split: sum.splits if_splits)
next
  fix step and s :: BufferStream and h
  assume "allocated h (buffer s) \<and> byteLength h (buffer s) < offset s + step"
  then show "\<exists>s' h'. checkSize step s h = (Inr (), s', h') \<and>
         byteLength h' (buffer s') = offset s + step \<and>
         take (byteLength h (buffer s)) (cells h' (buffer s')) = cells h (buffer s)"
    by (simp add: checkSize_grow byteLength_def)
next
  show "(let (s0, h0) = fresh_writer;
        (r1, s1, h1) = writeUint8 (JNumber (Number_of_int 0xAA)) s0 h0;
        (r2, s2, h2) = writeUint8 (JNumber (Number_of_int 0xBB)) s1 h1;
        (r3, s3, h3) = readUint8Array 2 (reset s2) h2
    in byteLength h0 (buffer s0) = 0 \<and> offset s0 = 0 \<and> r1 = Inr 1 \<and> offset s1 = 1 \<and>
       r2 = Inr 1 \<and> map_sum id (elements h3) r3 = Inr [0xAA, 0xBB])"
    by (simp add: fresh_writer_def stream_defs writeUint8_def checkSize_def toInt_def isNaN_def
        setUint8_def poke_def number_defs readUint8Array_def elements_def Let_def)
qed


theorem growth_preserves_bytes_witness:
  "allocated \<lparr>cells = (\<lambda>r. [])(1 := [0xAA]), fresh = 2\<rparr> 1 \<and>
   byteLength \<lparr>cells = (\<lambda>r. [])(1 := [0xAA]), fresh = 2\<rparr> 1 < 1 + width Uint8 \<and>
   (\<exists>r s' h'.
      write_num Uint8 (JNumber (Number_of_int 0xBB))
        \<lparr>buffer = 1, offset = 1, isLittleEndian = False, size_bs = 1\<rparr>
        \<lparr>cells = (\<lambda>r. [])(1 := [0xAA]), fresh = 2\<rparr> = (r, s', h') \<and>
      buffer s' \<noteq> 1 \<and> byteLength h' (buffer s') = 2 \<and> cells h' (buffer s') ! 0 = 0xAA)"
proof -
  define s :: BufferStream where "s = \<lparr>buffer = 1, offset = 1, isLittleEndian = False, size_bs = 1\<rparr>"
  define h :: heap where "h = \<lparr>cells = (\<lambda>r. [])(1 := [0xAA]), fresh = 2\<rparr>"
  obtain r s' h' where w: "write_num Uint8 (JNumber (Number_of_int 0xBB)) s h = (r, s', h')"
    by (cases "write_num Uint8 (JNumber (Number_of_int 0xBB)) s h") blast
  have a: "allocated h (buffer s)" "byteLength h (buffer s) < offset s + width Uint8"
    "0 < offset s" "0 < byteLength h (buffer s)"
    by (simp_all add: s_def h_def allocated_def byteLength_def)
  from growth_preserves_bytes [THEN conjunct1, rule_format, of h s Uint8 _ r s' h' 0] a w
  have "buffer s' \<noteq> buffer s \<and> byteLength h' (buffer s') = offset s + width Uint8 \<and>
      cells h' (buffer s') ! 0 = cells h (buffer s) ! 0"
    by blast
  then have "buffer s' \<noteq> 1 \<and> byteLength h' (buffer s') = 2 \<and> cells h' (buffer s') ! 0 = 0xAA"
    by (simp add: s_def h_def)
  with w a(1,2) show ?thesis
    unfolding s_def h_def by auto
qed

section \<open>A cursor made without a buffer (C10)\<close>




section \<open>Sub-cursors (C4)\<close>

text \<open>
  C4. \<open>more(length)\<close> fails with the error "Request more than currently allocated
  buffer" exactly when \<open>offset + length\<close> exceeds the capacity, and then the cursor and
  the store are unchanged. Otherwise it returns a new cursor at offset 0, of size
  \<open>length\<close>, over a new buffer that holds the bytes from \<open>offset\<close> to
  \<open>offset + length\<close>, and this cursor has advanced by \<open>length\<close> over its own buffer,
  whose bytes are unchanged. The two buffers are different objects: no run of numeric
  writes on the new cursor changes the bytes of this cursor's buffer, and no run of
  numeric writes on this cursor changes the bytes of the new cursor's buffer.
\<close>

theorem more_contract:
  assumes "allocated h (buffer s)"
  shows "(byteLength h (buffer s) < offset s + len \<longrightarrow>
            more_bs len s h = (Inl RequestMore, s, h)) \<and>
         (offset s + len \<le> byteLength h (buffer s) \<longrightarrow>
            (\<exists>sub s' h'. more_bs len s h = (Inr sub, s', h') \<and>
               cells h' (buffer sub) = take len (drop (offset s) (cells h (buffer s))) \<and>
               offset sub = 0 \<and> size_bs sub = len \<and> byteLength h' (buffer sub) = len \<and>
               offset s' = offset s + len \<and> buffer s' = buffer s \<and>
               cells h' (buffer s') = cells h (buffer s) \<and>
               buffer sub \<noteq> buffer s' \<and>
               (\<forall>ops. cells (snd (snd (writes ops sub h'))) (buffer s') = cells h' (buffer s')) \<and>
               (\<forall>ops. cells (snd (snd (writes ops s' h'))) (buffer sub) = cells h' (buffer sub))))"
proof (intro conjI impI)
  assume "byteLength h (buffer s) < offset s + len"
  then show "more_bs len s h = (Inl RequestMore, s, h)"
    by (simp add: more_bs_def)
next
  assume k: "offset s + len \<le> byteLength h (buffer s)"
  define sub where "sub = \<lparr>buffer = fresh h, offset = 0, isLittleEndian = False, size_bs = len\<rparr>"
  define s' where "s' = s\<lparr>offset := offset s + len, size_bs := max (size_bs s) (offset s + len)\<rparr>"
  define h' where "h' = \<lparr>cells = (cells h)(fresh h := take len (drop (offset s) (cells h (buffer s)))),
                          fresh = Suc (fresh h)\<rparr>"
  from assms have ne: "fresh h \<noteq> buffer s"
    by (auto simp add: allocated_def)
  from k have m: "more_bs len s h = (Inr sub, s', h')"
    by (simp add: more_bs_def slice_within new_ArrayBuffer_def ReadBufferStream_new_def
        BufferStream_new_def increment_eq byteLength_def sub_def s'_def h'_def)
  have a: "allocated h' (buffer sub)" "allocated h' (buffer s')" "buffer sub \<noteq> buffer s'"
    using assms ne by (simp_all add: sub_def s'_def h'_def allocated_def)
  have "cells (snd (snd (writes ops sub h'))) (buffer s') = cells h' (buffer s')" for ops
    using a by (intro writes_frame) auto
  moreover have "cells (snd (snd (writes ops s' h'))) (buffer sub) = cells h' (buffer sub)" for ops
    using a by (intro writes_frame) auto
  moreover have "cells h' (buffer sub) = take len (drop (offset s) (cells h (buffer s)))"
    "offset sub = 0" "size_bs sub = len" "byteLength h' (buffer sub) = len"
    "offset s' = offset s + len" "buffer s' = buffer s" "cells h' (buffer s') = cells h (buffer s)"
    using k ne by (auto simp add: sub_def s'_def h'_def byteLength_def)
  ultimately show "\<exists>sub s' h'. more_bs len s h = (Inr sub, s', h') \<and>
               cells h' (buffer sub) = take len (drop (offset s) (cells h (buffer s))) \<and>
               offset sub = 0 \<and> size_bs sub = len \<and> byteLength h' (buffer sub) = len \<and>
               offset s' = offset s + len \<and> buffer s' = buffer s \<and>
               cells h' (buffer s') = cells h (buffer s) \<and>
               buffer sub \<noteq> buffer s' \<and>
               (\<forall>ops. cells (snd (snd (writes ops sub h'))) (buffer s') = cells h' (buffer s')) \<and>
               (\<forall>ops. cells (snd (snd (writes ops s' h'))) (buffer sub) = cells h' (buffer sub))"
    using m a(3) by blast
qed


theorem more_contract_witness:
  "allocated \<lparr>cells = (\<lambda>r. [])(0 := [1, 2, 3, 4, 5, 6, 7, 8]), fresh = 1\<rparr> 0 \<and>
   more_bs 9 \<lparr>buffer = 0, offset = 0, isLittleEndian = False, size_bs = 8\<rparr>
     \<lparr>cells = (\<lambda>r. [])(0 := [1, 2, 3, 4, 5, 6, 7, 8]), fresh = 1\<rparr> =
     (Inl RequestMore, \<lparr>buffer = 0, offset = 0, isLittleEndian = False, size_bs = 8\<rparr>,
      \<lparr>cells = (\<lambda>r. [])(0 := [1, 2, 3, 4, 5, 6, 7, 8]), fresh = 1\<rparr>) \<and>
   (\<exists>sub s' h'.
      more_bs 4 \<lparr>buffer = 0, offset = 0, isLittleEndian = False, size_bs = 8\<rparr>
        \<lparr>cells = (\<lambda>r. [])(0 := [1, 2, 3, 4, 5, 6, 7, 8]), fresh = 1\<rparr> = (Inr sub, s', h') \<and>
      cells h' (buffer sub) = [1, 2, 3, 4] \<and> size_bs sub = 4 \<and> offset s' = 4 \<and>
      cells h' (buffer s') = [1, 2, 3, 4, 5, 6, 7, 8] \<and> buffer sub \<noteq> buffer s')"
proof -
  define s :: BufferStream where "s = \<lparr>buffer = 0, offset = 0, isLittleEndian = False, size_bs = 8\<rparr>"
  define h :: heap where "h = \<lparr>cells = (\<lambda>r. [])(0 := [1, 2, 3, 4, 5, 6, 7, 8]), fresh = 1\<rparr>"
  have a: "allocated h (buffer s)"
    by (simp add: s_def h_def allocated_def)
  have b: "byteLength h (buffer s) < offset s + 9" "offset s + 4 \<le> byteLength h (buffer s)"
    by (simp_all add: s_def h_def byteLength_def)
  from more_contract [OF a, of 9, THEN conjunct1] b(1)
  have e: "more_bs 9 s h = (Inl RequestMore, s, h)"
    by (rule mp)
  from more_contract [OF a, of 4, THEN conjunct2] b(2) obtain sub s' h' where m:
    "more_bs 4 s h = (Inr sub, s', h')"
    "cells h' (buffer sub) = take 4 (drop (offset s) (cells h (buffer s)))"
    "size_bs sub = 4" "offset s' = offset s + 4" "cells h' (buffer s') = cells h (buffer s)"
    "buffer sub \<noteq> buffer s'"
    by (elim conjE impE exE)
  from m(2,4,5) have v: "cells h' (buffer sub) = [1, 2, 3, 4]" "offset s' = 4"
    "cells h' (buffer s') = [1, 2, 3, 4, 5, 6, 7, 8]"
    by (simp_all add: s_def h_def)
  from m(1,3,6) v have "\<exists>sub s' h'.
      more_bs 4 s h = (Inr sub, s', h') \<and>
      cells h' (buffer sub) = [1, 2, 3, 4] \<and> size_bs sub = 4 \<and> offset s' = 4 \<and>
      cells h' (buffer s') = [1, 2, 3, 4, 5, 6, 7, 8] \<and> buffer sub \<noteq> buffer s'"
    by (intro exI conjI)
  with a e show ?thesis
    unfolding s_def h_def by simp
qed

section \<open>Concatenation (C6)\<close>

text \<open>
  C6, as the code has it. For a cursor whose offset is within its capacity and another
  cursor whose size is within its capacity, \<open>concat(other)\<close> writes the bytes from 0 to
  \<open>other.size\<close> of the other cursor at this cursor's offset, in a new buffer of exactly
  \<open>offset + other.size\<close> bytes when the room does not suffice and in place otherwise;
  the bytes before the old offset are unchanged and the next \<open>other.size\<close> bytes are
  the other cursor's; the offset advances by \<open>other.size\<close>, and the size is set to the
  new offset. (The size advances by \<open>other.size\<close> only when it was equal to the offset
  before.) The call returns the capacity.
\<close>

theorem concat_contract:
  assumes "allocated h (buffer s)" "allocated h (buffer stream)"
    "offset s \<le> byteLength h (buffer s)" "size_bs stream \<le> byteLength h (buffer stream)"
  shows "\<exists>s' h'. concat_bs stream s h = (Inr (byteLength h' (buffer s')), s', h') \<and>
           offset s' = offset s + size_bs stream \<and>
           size_bs s' = offset s' \<and>
           byteLength h' (buffer s') =
             max (byteLength h (buffer s)) (offset s + size_bs stream) \<and>
           take (offset s) (cells h' (buffer s')) = take (offset s) (cells h (buffer s)) \<and>
           take (size_bs stream) (drop (offset s) (cells h' (buffer s'))) =
             take (size_bs stream) (cells h (buffer stream))"
proof (cases "int (byteLength h (buffer s)) - int (offset s) < int (size_bs stream)")
  case True
  from assms(1,2) have ne: "fresh h \<noteq> buffer s" "fresh h \<noteq> buffer stream"
    "Suc (fresh h) \<noteq> buffer s" "Suc (fresh h) \<noteq> buffer stream"
    by (auto simp add: allocated_def)
  show ?thesis
  proof (cases "offset s = 0")
    case zero: True
    from True zero have "byteLength h (buffer s) < size_bs stream"
      by simp
    with length_slice_le [of 0 "size_bs s" "cells h (buffer s)"]
    have lp: "length (slice 0 (size_bs s) (cells h (buffer s))) \<le> size_bs stream"
      by (simp add: byteLength_def)
    show ?thesis
      using True ne zero lp assms(4)
      by (simp add: concat_bs_def getBuffer_bounds new_ArrayBuffer_def put_def poke_def
          byteLength_def Let_def slice_front)
  next
    case False
    show ?thesis
      using True ne False assms(3,4)
      by (simp add: concat_bs_def getBuffer_bounds new_ArrayBuffer_def put_def poke_def
          byteLength_def Let_def slice_front)
  qed
next
  case False
  from assms(1,2) have ne: "fresh h \<noteq> buffer s" "fresh h \<noteq> buffer stream"
    by (auto simp add: allocated_def)
  from False assms(3) have k: "offset s + size_bs stream \<le> byteLength h (buffer s)"
    by simp
  show ?thesis
    using False ne k assms(4)
    by (simp add: concat_bs_def getBuffer_bounds new_ArrayBuffer_def put_def poke_def
        byteLength_def Let_def slice_front)
qed


theorem concat_contract_witness:
  "allocated \<lparr>cells = (\<lambda>r. [])(0 := [1, 2], 1 := [7, 8, 9]), fresh = 2\<rparr> 0 \<and>
   allocated \<lparr>cells = (\<lambda>r. [])(0 := [1, 2], 1 := [7, 8, 9]), fresh = 2\<rparr> 1 \<and>
   (\<exists>s' h'.
      concat_bs \<lparr>buffer = 1, offset = 3, isLittleEndian = False, size_bs = 3\<rparr>
        \<lparr>buffer = 0, offset = 2, isLittleEndian = False, size_bs = 2\<rparr>
        \<lparr>cells = (\<lambda>r. [])(0 := [1, 2], 1 := [7, 8, 9]), fresh = 2\<rparr> = (Inr 5, s', h') \<and>
      offset s' = 5 \<and> size_bs s' = 5 \<and> cells h' (buffer s') = [1, 2, 7, 8, 9])"
proof -
  define s :: BufferStream where "s = \<lparr>buffer = 0, offset = 2, isLittleEndian = False, size_bs = 2\<rparr>"
  define stream :: BufferStream where
    "stream = \<lparr>buffer = 1, offset = 3, isLittleEndian = False, size_bs = 3\<rparr>"
  define h :: heap where "h = \<lparr>cells = (\<lambda>r. [])(0 := [1, 2], 1 := [7, 8, 9]), fresh = 2\<rparr>"
  have a: "allocated h (buffer s)" "allocated h (buffer stream)"
    "offset s \<le> byteLength h (buffer s)" "size_bs stream \<le> byteLength h (buffer stream)"
    by (simp_all add: s_def stream_def h_def allocated_def byteLength_def)
  from concat_contract [OF a] obtain s' h' where c:
    "concat_bs stream s h = (Inr (byteLength h' (buffer s')), s', h')"
    "offset s' = offset s + size_bs stream" "size_bs s' = offset s'"
    "byteLength h' (buffer s') = max (byteLength h (buffer s)) (offset s + size_bs stream)"
    "take (offset s) (cells h' (buffer s')) = take (offset s) (cells h (buffer s))"
    "take (size_bs stream) (drop (offset s) (cells h' (buffer s'))) =
       take (size_bs stream) (cells h (buffer stream))"
    by (elim exE conjE)
  from c(4) have l: "length (cells h' (buffer s')) = 5"
    by (simp add: s_def stream_def h_def byteLength_def)
  from c(5) have t1: "take 2 (cells h' (buffer s')) = [1, 2]"
    by (simp add: s_def h_def)
  from c(6) have "take 3 (drop 2 (cells h' (buffer s'))) = [7, 8, 9]"
    by (simp add: s_def stream_def h_def)
  with l have t2: "drop 2 (cells h' (buffer s')) = [7, 8, 9]"
    by simp
  have "cells h' (buffer s') = take 2 (cells h' (buffer s')) @ drop 2 (cells h' (buffer s'))"
    by simp
  then have v: "cells h' (buffer s') = [1, 2, 7, 8, 9]"
    unfolding t1 t2 by simp
  from c(1) l have r: "concat_bs stream s h = (Inr 5, s', h')"
    by (simp add: byteLength_def)
  from c(2,3) have o: "offset s' = 5" "size_bs s' = 5"
    by (simp_all add: s_def stream_def)
  from r o v have "\<exists>s' h'. concat_bs stream s h = (Inr 5, s', h') \<and>
      offset s' = 5 \<and> size_bs s' = 5 \<and> cells h' (buffer s') = [1, 2, 7, 8, 9]"
    by (intro exI conjI)
  with a(1,2) show ?thesis
    unfolding s_def stream_def h_def by simp
qed

text \<open>
  C6 as stated fails: the size does not advance by the appended length. A cursor of
  size 5 at offset 0, after \<open>concat\<close> of a cursor of size 3, has size 3 (its offset), not
  8.
\<close>

theorem concat_sets_size_to_offset:
  "(let (b1, h1) = new_ArrayBuffer [1, 2, 3, 4, 5] empty_heap;
        (s, h2) = ReadBufferStream_new (ArgBuffer b1) None h1;
        (b2, h3) = new_ArrayBuffer [7, 8, 9] h2;
        (stream, h4) = ReadBufferStream_new (ArgBuffer b2) None h3;
        (r, s', h') = concat_bs stream s h4
    in size_bs s = 5 \<and> offset s = 0 \<and> size_bs stream = 3 \<and> r = Inr 5 \<and> offset s' = 3 \<and>
       size_bs s' = 3 \<and> size_bs s' \<noteq> size_bs s + size_bs stream \<and>
       cells h' (buffer s') = [7, 8, 9, 4, 5])"
  by (simp add: stream_defs concat_bs_def getBuffer_def falsy_def slice_def poke_def Let_def)


section \<open>Writing and reading back (C1)\<close>

text \<open>
  C1, as the code has it. For each numeric type that the class both writes and reads
  (\<open>Uint8\<close>, \<open>Uint16\<close>, \<open>Int16\<close>, \<open>Uint32\<close>, \<open>Int32\<close>, \<open>Float\<close>, \<open>Double\<close>), either byte
  order and every value of the type (an integer in the range of the type; a binary32
  value other than \<open>NaN\<close> for \<open>Float\<close>; a Number other than \<open>NaN\<close> for \<open>Double\<close>): writing
  the value at offset 0 and reading the type back from offset 0 returns the value,
  bit for bit.
\<close>

theorem numeric_roundtrip:
  assumes "allocated h (buffer s)" "offset s = 0" "T \<noteq> Int8" "typed_value T v"
  shows "write_then_read T (JNumber v) s h = Inr v"
proof -
  from typed_value_not_NaN [OF assms(4)]
  have c: "(if T = Float \<or> T = Double then toFloat (JNumber v) else toInt (JNumber v)) =
           Inr (JNumber v)"
    by (simp add: toInt_number toFloat_number)
  from write_with_ok [OF assms(1), of "\<lambda>v le. encode T le (ToNumber v)" "JNumber v" "width T"]
  obtain s' h' where w:
    "write_num T (JNumber v) s h = (Inr (width T), s', h')"
    "byteLength h' (buffer s') = max (byteLength h (buffer s)) (offset s + width T)"
    "take (width T) (drop (offset s) (cells h' (buffer s'))) = encode T (isLittleEndian s) v"
    "isLittleEndian s' = isLittleEndian s"
    unfolding write_num_shape c by auto
  from w(2) have l: "width T \<le> length (cells h' (buffer s'))"
    by (simp add: byteLength_def assms(2))
  from w(3) have b: "take (width T) (cells h' (buffer s')) = encode T (isLittleEndian s) v"
    by (simp add: assms(2))
  have "fst (read_num T (reset s') h') = Inr (decode T (isLittleEndian s) (encode T (isLittleEndian s) v))"
    using l by (simp add: read_num_shape [OF assms(3)] reset_def peek_def b w(4))
  then show ?thesis
    by (simp add: write_then_read_def w(1) decode_encode [OF assms(4)])
qed

theorem numeric_roundtrip_witness:
  "allocated (snd fresh_writer) (buffer (fst fresh_writer)) \<and>
   offset (fst fresh_writer) = 0 \<and> Int16 \<noteq> Int8 \<and>
   typed_value Int16 (Number_of_int (- 2)) \<and>
   write_then_read Int16 (JNumber (Number_of_int (- 2))) (fst fresh_writer) (snd fresh_writer) =
     Inr (Number_of_int (- 2))"
proof -
  have a: "allocated (snd fresh_writer) (buffer (fst fresh_writer))"
    "offset (fst fresh_writer) = 0"
    by (simp_all add: fresh_writer_def stream_defs)
  have n: "Int16 \<noteq> Int8"
    by simp
  have "(- 2 :: int) \<in> {- (2 ^ 15)..<2 ^ 15}"
    by simp
  then have t: "typed_value Int16 (Number_of_int (- 2))"
    unfolding typed_value.simps by (rule bexI [rotated]) (rule refl)
  from numeric_roundtrip [OF a n t] a n t show ?thesis
    by (intro conjI)
qed

text \<open>
  C1 as stated fails for the 8-bit signed integer: the class has \<open>writeInt8\<close> and no
  \<open>readInt8\<close>, so 5 can be written but reading it back as that type raises a
  \<open>TypeError\<close>.
\<close>

theorem no_reader_for_Int8:
  "typed_value Int8 (Number_of_int 5) \<and>
   write_then_read Int8 (JNumber (Number_of_int 5)) (fst fresh_writer) (snd fresh_writer) =
     Inl TypeError \<and>
   write_then_read Int8 (JNumber (Number_of_int 5)) (fst fresh_writer) (snd fresh_writer) \<noteq>
     Inr (Number_of_int 5)"
proof -
  have "(5 :: int) \<in> {- (2 ^ 7)..<2 ^ 7}"
    by simp
  then have t: "typed_value Int8 (Number_of_int 5)"
    unfolding typed_value.simps by (rule bexI [rotated]) (rule refl)
  have "write_then_read Int8 (JNumber (Number_of_int 5)) (fst fresh_writer) (snd fresh_writer) =
     Inl TypeError"
    by (simp add: write_then_read_def split: prod.splits)
  with t show ?thesis
    by simp
qed


end
